theory Spec2Isabelle
  imports Main "HOL-Library.AList"
begin

section \<open>Python strings\<close>

text \<open>
  A Python \<open>str\<close> is a sequence of Unicode code points; it is modelled as a list of
  natural numbers. \<open>str\<close> turns an ASCII literal into such a list.
\<close>

type_synonym pystr = "nat list"

definition str :: "string \<Rightarrow> pystr" where
  "str s = map of_char s"

text \<open>The code points for which \<open>str.isspace\<close> holds; \<open>strip()\<close> and \<open>split()\<close> use them.\<close>

definition isspace :: "nat \<Rightarrow> bool" where
  "isspace c \<longleftrightarrow>
     (9 \<le> c \<and> c \<le> 13) \<or> (28 \<le> c \<and> c \<le> 32) \<or> c = 133 \<or> c = 160 \<or> c = 5760 \<or>
     (8192 \<le> c \<and> c \<le> 8202) \<or> c = 8232 \<or> c = 8233 \<or> c = 8239 \<or> c = 8287 \<or> c = 12288"

definition py_strip :: "pystr \<Rightarrow> pystr" where
  "py_strip s = rev (dropWhile isspace (rev (dropWhile isspace s)))"

definition py_lstrip_chars :: "pystr \<Rightarrow> pystr \<Rightarrow> pystr" where
  "py_lstrip_chars cs s = dropWhile (\<lambda>c. c \<in> set cs) s"

definition py_rstrip_chars :: "pystr \<Rightarrow> pystr \<Rightarrow> pystr" where
  "py_rstrip_chars cs s = rev (dropWhile (\<lambda>c. c \<in> set cs) (rev s))"

definition py_startswith :: "pystr \<Rightarrow> pystr \<Rightarrow> bool" where
  "py_startswith s p \<longleftrightarrow> take (length p) s = p"

text \<open>\<open>s.split()\<close>: the maximal runs of non-whitespace; \<open>w\<close> is the run being read.\<close>

fun split_ws :: "pystr \<Rightarrow> pystr \<Rightarrow> pystr list" where
  "split_ws w [] = (if w = [] then [] else [w])"
| "split_ws w (c # cs) =
     (if isspace c then (if w = [] then split_ws [] cs else w # split_ws [] cs)
      else split_ws (w @ [c]) cs)"

definition py_split :: "pystr \<Rightarrow> pystr list" where
  "py_split s = split_ws [] s"

text \<open>\<open>s.split(sep)\<close> for a one-character separator: always at least one field.\<close>

fun split_sep :: "nat \<Rightarrow> pystr \<Rightarrow> pystr \<Rightarrow> pystr list" where
  "split_sep sep w [] = [w]"
| "split_sep sep w (c # cs) =
     (if c = sep then w # split_sep sep [] cs else split_sep sep (w @ [c]) cs)"

definition py_split_sep :: "pystr \<Rightarrow> nat \<Rightarrow> pystr list" where
  "py_split_sep s sep = split_sep sep [] s"

fun py_join :: "pystr \<Rightarrow> pystr list \<Rightarrow> pystr" where
  "py_join sep [] = []"
| "py_join sep [x] = x"
| "py_join sep (x # y # ys) = x @ sep @ py_join sep (y # ys)"

text \<open>\<open>s.replace(old, new)\<close> for a non-empty \<open>old\<close>: leftmost non-overlapping occurrences.\<close>

function replace_ne :: "pystr \<Rightarrow> pystr \<Rightarrow> pystr \<Rightarrow> pystr" where
  "replace_ne old new [] = []"
| "replace_ne old new (c # cs) =
     (if py_startswith (c # cs) old then new @ replace_ne old new (drop (length old - 1) cs)
      else c # replace_ne old new cs)"
  by pat_completeness auto
termination
  by (relation "measure (\<lambda>(old, new, s). length s)") auto

definition py_replace :: "pystr \<Rightarrow> pystr \<Rightarrow> pystr \<Rightarrow> pystr" where
  "py_replace s old new =
     (if old = [] then new @ concat (map (\<lambda>c. c # new) s) else replace_ne old new s)"

text \<open>
  The Unicode tables the program reads through the standard library are parameters of
  the model: \<open>unicodedata.normalize("NFD", _)\<close>, \<open>str.lower\<close> and
  \<open>unicodedata.category\<close>.
\<close>

record unicode_lib =
  NFD :: "pystr \<Rightarrow> pystr"
  lower :: "pystr \<Rightarrow> pystr"
  category :: "nat \<Rightarrow> pystr"

datatype error =
    DuplicateGrapheme nat
  | IndexError
  | KeyError
  | UnpackValueError
  | CountMismatchValueError
  | RegexError
  | NoProfileException

section \<open>util.py\<close>

text \<open>
  \<open>normalized_rows(path, separator, skip_comments)\<close>; the file is the list of its lines,
  and the separator is the one character the callers pass (so the branch for an empty
  separator is never taken).
\<close>

fun normalized_rows :: "unicode_lib \<Rightarrow> pystr list \<Rightarrow> nat \<Rightarrow> bool \<Rightarrow> pystr list list" where
  "normalized_rows u [] separator skip_comments = []"
| "normalized_rows u (l # ls) separator skip_comments =
     (let line = NFD u (py_strip l) in
      if line \<noteq> [] \<and> (\<not> skip_comments \<or> \<not> py_startswith line (str ''#''))
      then map py_strip (py_split_sep line separator) # normalized_rows u ls separator skip_comments
      else normalized_rows u ls separator skip_comments)"

definition normalized_string :: "unicode_lib \<Rightarrow> pystr \<Rightarrow> bool \<Rightarrow> pystr" where
  "normalized_string u string add_boundaries =
     NFD u (if add_boundaries then py_replace string (str '' '') (str ''#'') else string)"

section \<open>tree.py\<close>

datatype TreeNode =
  TreeNode (char: pystr) (children: "(nat \<times> TreeNode) list") (sentinel: bool)

text \<open>
  \<open>addMultigraph\<close> walks down from \<open>node\<close>, \<open>setdefault\<close> creating the missing children,
  and marks the last node. The dictionary \<open>children\<close> is an association list in insertion
  order; the in-place update is returned as the new node.
\<close>

fun addMultigraph :: "TreeNode \<Rightarrow> pystr \<Rightarrow> TreeNode" where
  "addMultigraph node [] = TreeNode (char node) (children node) True"
| "addMultigraph node (c # cs) =
     (case map_of (children node) c of
        None \<Rightarrow> TreeNode (char node)
                 (children node @ [(c, addMultigraph (TreeNode [c] [] False) cs)]) (sentinel node)
      | Some child \<Rightarrow> TreeNode (char node)
                 (AList.update c (addMultigraph child cs) (children node)) (sentinel node))"

text \<open>The loop of \<open>Tree.__init__\<close> over the enumerated rows; \<open>i\<close> is the row's index.\<close>

fun add_rows :: "unicode_lib \<Rightarrow> TreeNode \<Rightarrow> nat \<Rightarrow> pystr list list \<Rightarrow> error + TreeNode" where
  "add_rows u root i [] = Inr root"
| "add_rows u root i (tokens # rows) =
     (case tokens of
        [] \<Rightarrow> Inl IndexError
      | t # _ \<Rightarrow>
          if i = 0 \<and> py_startswith (lower u t) (str ''graphemes'')
          then add_rows u root (i + 1) rows
          else add_rows u (addMultigraph root t) (i + 1) rows)"

definition Tree_init :: "unicode_lib \<Rightarrow> pystr list \<Rightarrow> error + TreeNode" where
  "Tree_init u fl = add_rows u (TreeNode [] [] True) 0 (normalized_rows u fl 9 True)"

text \<open>
  \<open>Tree._parse\<close> (here \<open>private_parse\<close>) and its \<open>while\<close> loop (\<open>parse_loop\<close>, entered with
  \<open>cur = 0\<close>, \<open>node = root\<close> and \<open>parse = ""\<close>).
\<close>

function private_parse :: "TreeNode \<Rightarrow> pystr \<Rightarrow> pystr"
  and parse_loop :: "TreeNode \<Rightarrow> TreeNode \<Rightarrow> pystr \<Rightarrow> nat \<Rightarrow> pystr \<Rightarrow> pystr" where
  "private_parse root line =
     (if length line = 0 then str ''#'' else parse_loop root root line 0 [])"
| "parse_loop root node line cur parse =
     (if cur < length line then
        (case map_of (children node) (line ! cur) of
           None \<Rightarrow> parse
         | Some node' \<Rightarrow>
             (if sentinel node' then
                (let subparse = private_parse root (drop (cur + 1) line) in
                 parse_loop root node' line (cur + 1)
                   (if length subparse > 0 then take (cur + 1) line @ str '' '' @ subparse
                    else parse))
              else parse_loop root node' line (cur + 1) parse))
      else parse)"
  by pat_completeness auto
termination
  by (relation "inv_image (less_than <*lex*> less_than)
        (\<lambda>x. case x of Inl (root, line) \<Rightarrow> (length line, length line + 1)
                      | Inr (root, node, line, cur, parse) \<Rightarrow> (length line, length line - cur))")
     auto

declare private_parse.simps [simp del] parse_loop.simps [simp del]

definition parse :: "TreeNode \<Rightarrow> pystr \<Rightarrow> pystr" where
  "parse root line =
     (let p = private_parse root line in if p \<noteq> [] then str ''# '' @ p else [])"

subsection \<open>Paths of the trie\<close>

text \<open>The node reached from \<open>node\<close> along the characters of \<open>p\<close>, when every child exists.\<close>

fun lookup_path :: "TreeNode \<Rightarrow> pystr \<Rightarrow> TreeNode option" where
  "lookup_path node [] = Some node"
| "lookup_path node (c # cs) =
     (case map_of (children node) c of None \<Rightarrow> None | Some child \<Rightarrow> lookup_path child cs)"

definition terminal :: "TreeNode \<Rightarrow> pystr \<Rightarrow> bool" where
  "terminal root p = (case lookup_path root p of None \<Rightarrow> False | Some n \<Rightarrow> sentinel n)"

text \<open>
  The lengths \<open>k\<close>, longest first, of the non-empty prefixes of \<open>line\<close> that end at a
  terminal node and whose remaining suffix parses.
\<close>

definition parsable_prefixes :: "TreeNode \<Rightarrow> pystr \<Rightarrow> nat list" where
  "parsable_prefixes root line =
     filter (\<lambda>k. terminal root (take k line) \<and> private_parse root (drop k line) \<noteq> [])
       (rev [1 ..< Suc (length line)])"


text \<open>
  The graphemes of a profile as \<open>Tree.__init__\<close> reads them: the first column of every
  normalized row, the first row left out when it is the header.
\<close>

definition Tree_graphemes :: "unicode_lib \<Rightarrow> pystr list \<Rightarrow> pystr list" where
  "Tree_graphemes u fl =
     (case normalized_rows u fl 9 True of
        [] \<Rightarrow> []
      | r # rs \<Rightarrow> if py_startswith (lower u (hd r)) (str ''graphemes'') then map hd rs
                  else map hd (r # rs))"

section \<open>tokenizer.py\<close>

text \<open>
  The \<open>regex\<close> package is a parameter of the model: compiling a pattern (\<open>None\<close> when it
  raises), \<open>search\<close> as the truth value of its result, \<open>re.sub\<close> (\<open>None\<close> when the
  replacement template is refused) and \<open>findall\<close> of the pattern \<open>\X\<close>.
\<close>

record 'p regex_lib =
  re_compile :: "pystr \<Rightarrow> 'p option"
  re_search :: "'p \<Rightarrow> pystr \<Rightarrow> bool"
  re_sub :: "'p \<Rightarrow> pystr \<Rightarrow> pystr \<Rightarrow> pystr option"
  findall_X :: "pystr \<Rightarrow> pystr list"

text \<open>
  The attributes of a \<open>Tokenizer\<close>. The two file attributes hold a path or \<open>None\<close>; the
  dictionaries \<open>mappings\<close> and \<open>op_graphemes\<close> are association lists.
\<close>

record 'p Tokenizer =
  orthography_profile :: "pystr option"
  tree :: TreeNode
  column_labels :: "pystr list"
  mappings :: "((pystr \<times> pystr) \<times> pystr) list"
  op_graphemes :: "(pystr \<times> nat) list"
  orthography_profile_rules :: "pystr option"
  op_rules :: "'p list"
  op_replacements :: "pystr list"

definition no_attributes :: "'p Tokenizer" where
  "no_attributes =
     \<lparr>orthography_profile = None, tree = TreeNode [] [] True, column_labels = [],
      mappings = [], op_graphemes = [], orthography_profile_rules = None,
      op_rules = [], op_replacements = []\<rparr>"

subsection \<open>Loading a profile\<close>

text \<open>The inner loop \<open>for i in range(0, len(tokens))\<close> of \<open>_init_profile\<close>.\<close>

fun set_mappings ::
  "unicode_lib \<Rightarrow> 'p Tokenizer \<Rightarrow> pystr \<Rightarrow> pystr list \<Rightarrow> nat \<Rightarrow> error + 'p Tokenizer" where
  "set_mappings u tk grapheme [] i = Inr tk"
| "set_mappings u tk grapheme (t # ts) i =
     (if i < length (column_labels tk)
      then set_mappings u
             (tk\<lparr>mappings :=
                   AList.update (grapheme, lower u (column_labels tk ! i)) (py_strip t)
                     (mappings tk)\<rparr>)
             grapheme ts (i + 1)
      else Inl IndexError)"

text \<open>One turn of the loop over the lines; \<open>line_count\<close> is already incremented.\<close>

definition profile_line ::
  "unicode_lib \<Rightarrow> nat \<Rightarrow> 'p Tokenizer \<Rightarrow> pystr \<Rightarrow> error + 'p Tokenizer" where
  "profile_line u line_count tk l =
     (let line = py_strip l in
      if py_startswith line (str ''#'') \<or> line = [] then Inr tk
      else if py_startswith (lower u line) (str ''graphemes'') then
        Inr (tk\<lparr>column_labels :=
                  column_labels tk @ map (\<lambda>t. py_strip (lower u t)) (py_split_sep line 9)\<rparr>)
      else
        (let line = NFD u line; tokens = py_split_sep line 9 in
         case tokens of
           [] \<Rightarrow> Inl IndexError
         | t0 # _ \<Rightarrow>
             (let grapheme = py_strip t0 in
              if map_of (op_graphemes tk) grapheme = None then
                (let tk = tk\<lparr>op_graphemes := AList.update grapheme 1 (op_graphemes tk)\<rparr> in
                 if length tokens = 1 then Inr tk
                 else set_mappings u tk grapheme tokens 0)
              else Inl (DuplicateGrapheme line_count))))"

fun init_profile_loop ::
  "unicode_lib \<Rightarrow> nat \<Rightarrow> 'p Tokenizer \<Rightarrow> pystr list \<Rightarrow> error + 'p Tokenizer" where
  "init_profile_loop u line_count tk [] = Inr tk"
| "init_profile_loop u line_count tk (l # ls) =
     (case profile_line u (line_count + 1) tk l of
        Inl e \<Rightarrow> Inl e
      | Inr tk' \<Rightarrow> init_profile_loop u (line_count + 1) tk' ls)"

definition init_profile :: "unicode_lib \<Rightarrow> 'p Tokenizer \<Rightarrow> pystr list \<Rightarrow> error + 'p Tokenizer" where
  "init_profile u tk f = init_profile_loop u 0 tk f"

subsection \<open>Loading the rules\<close>

definition rules_line ::
  "unicode_lib \<Rightarrow> 'p regex_lib \<Rightarrow> 'p Tokenizer \<Rightarrow> pystr \<Rightarrow> error + 'p Tokenizer" where
  "rules_line u re tk l =
     (let line = py_strip l in
      if py_startswith line (str ''#'') \<or> line = [] then Inr tk
      else
        (case py_split_sep (NFD u line) 44 of
           [rule, replacement] \<Rightarrow>
             (case re_compile re (py_strip rule) of
                None \<Rightarrow> Inl RegexError
              | Some r \<Rightarrow>
                  Inr (tk\<lparr>op_rules := op_rules tk @ [r],
                          op_replacements := op_replacements tk @ [py_strip replacement]\<rparr>))
         | _ \<Rightarrow> Inl UnpackValueError))"

fun init_rules_loop ::
  "unicode_lib \<Rightarrow> 'p regex_lib \<Rightarrow> 'p Tokenizer \<Rightarrow> pystr list \<Rightarrow> error + 'p Tokenizer" where
  "init_rules_loop u re tk [] = Inr tk"
| "init_rules_loop u re tk (l # ls) =
     (case rules_line u re tk l of
        Inl e \<Rightarrow> Inl e
      | Inr tk' \<Rightarrow> init_rules_loop u re tk' ls)"

definition init_rules ::
  "unicode_lib \<Rightarrow> 'p regex_lib \<Rightarrow> 'p Tokenizer \<Rightarrow> pystr list \<Rightarrow> error + 'p Tokenizer" where
  "init_rules u re tk f =
     (case init_rules_loop u re tk f of
        Inl e \<Rightarrow> Inl e
      | Inr tk' \<Rightarrow>
          if length (op_rules tk') \<noteq> length (op_replacements tk')
          then Inl CountMismatchValueError else Inr tk')"

text \<open>
  \<open>Tokenizer.__init__\<close>. The search for the two files is left to the caller: \<open>prf\<close> and
  \<open>rls\<close> are the lines of \<open>ortho_path + ".prf"\<close> and \<open>ortho_path + ".rules"\<close>, or
  \<open>None\<close> when that file does not exist.
\<close>

definition Tokenizer_init ::
  "unicode_lib \<Rightarrow> 'p regex_lib \<Rightarrow> pystr \<Rightarrow> pystr list option \<Rightarrow> pystr list option
     \<Rightarrow> error + 'p Tokenizer" where
  "Tokenizer_init u re ortho_path prf rls =
     (case (case prf of
              None \<Rightarrow> Inr no_attributes
            | Some f \<Rightarrow>
                (case Tree_init u f of
                   Inl e \<Rightarrow> Inl e
                 | Inr t \<Rightarrow>
                     init_profile u
                       (no_attributes\<lparr>orthography_profile := Some (ortho_path @ str ''.prf''),
                                      tree := t\<rparr>) f)) of
        Inl e \<Rightarrow> Inl e
      | Inr tk \<Rightarrow>
          (case rls of
             None \<Rightarrow> Inr tk
           | Some f \<Rightarrow>
               init_rules u re
                 (tk\<lparr>orthography_profile_rules := Some (ortho_path @ str ''.rules''),
                     op_rules := [], op_replacements := []\<rparr>) f))"

subsection \<open>Tokenizing\<close>

definition characters :: "unicode_lib \<Rightarrow> pystr \<Rightarrow> pystr" where
  "characters u string =
     (let string = py_replace string (str '' '') (str ''#'');
          string = NFD u string
      in py_strip (concat (map (\<lambda>character. character # str '' '') string)))"

definition grapheme_clusters :: "unicode_lib \<Rightarrow> 'p regex_lib \<Rightarrow> pystr \<Rightarrow> pystr" where
  "grapheme_clusters u re string =
     (let string = py_replace string (str '' '') (str ''#'');
          string = NFD u string
      in py_strip (concat (map (\<lambda>grapheme. grapheme @ str '' '') (findall_X re string))))"

definition find_missing_characters :: "'p Tokenizer \<Rightarrow> pystr \<Rightarrow> pystr" where
  "find_missing_characters tk char_tokenized_string =
     py_join (str '' '')
       (map (\<lambda>c. if map_of (op_graphemes tk) c \<noteq> None then c else str ''?'')
          (py_split char_tokenized_string))"

definition graphemes :: "unicode_lib \<Rightarrow> 'p regex_lib \<Rightarrow> 'p Tokenizer \<Rightarrow> pystr \<Rightarrow> pystr" where
  "graphemes u re tk string =
     (let string = NFD u string in
      if orthography_profile tk = None then grapheme_clusters u re string
      else
        (let parses =
               map (\<lambda>word.
                      let p = parse (tree tk) word in
                      if length p = 0
                      then str '' '' @ find_missing_characters tk (characters u word)
                      else p)
                 (py_split string);
             result = py_replace (concat parses) (str ''##'') (str ''#'');
             result = py_rstrip_chars (str ''#'') result;
             result = py_lstrip_chars (str ''#'') result
         in py_strip result))"

text \<open>The loop of \<open>transform\<close> over the tokens; \<open>result\<close> is the list built so far.\<close>

fun transform_loop ::
  "'p Tokenizer \<Rightarrow> pystr \<Rightarrow> pystr list \<Rightarrow> pystr list \<Rightarrow> error + pystr list" where
  "transform_loop tk column result [] = Inr result"
| "transform_loop tk column result (token # tokens) =
     (if token = str ''#'' then transform_loop tk column (result @ [str ''#'']) tokens
      else if token = str ''?'' then transform_loop tk column (result @ [str ''?'']) tokens
      else
        (case map_of (mappings tk) (token, column) of
           None \<Rightarrow> Inl KeyError
         | Some target \<Rightarrow>
             if target \<noteq> str ''NULL'' then transform_loop tk column (result @ [target]) tokens
             else transform_loop tk column result tokens))"

definition transform ::
  "unicode_lib \<Rightarrow> 'p regex_lib \<Rightarrow> 'p Tokenizer \<Rightarrow> pystr \<Rightarrow> pystr \<Rightarrow> error + pystr" where
  "transform u re tk string column =
     (if orthography_profile tk = None then Inl NoProfileException
      else if column = str ''graphemes'' then Inr (graphemes u re tk string)
      else if column \<notin> set (column_labels tk) then Inr (graphemes u re tk string)
      else
        (let tokenized_string = graphemes u re tk string;
             tokens = py_split tokenized_string
         in case transform_loop tk column [] tokens of
              Inl e \<Rightarrow> Inl e
            | Inr result \<Rightarrow> Inr (py_strip (py_join (str '' '') result))))"

text \<open>The loop of \<open>rules\<close> over \<open>range(0, len(self.op_rules))\<close>.\<close>

fun rules_loop :: "'p regex_lib \<Rightarrow> 'p Tokenizer \<Rightarrow> nat list \<Rightarrow> pystr \<Rightarrow> error + pystr" where
  "rules_loop re tk [] result = Inr result"
| "rules_loop re tk (i # is) result =
     (if re_search re (op_rules tk ! i) result then
        (if i < length (op_replacements tk) then
           (case re_sub re (op_rules tk ! i) (op_replacements tk ! i) result of
              None \<Rightarrow> Inl RegexError
            | Some result' \<Rightarrow> rules_loop re tk is result')
         else Inl IndexError)
      else rules_loop re tk is result)"

definition rules :: "unicode_lib \<Rightarrow> 'p regex_lib \<Rightarrow> 'p Tokenizer \<Rightarrow> pystr \<Rightarrow> error + pystr" where
  "rules u re tk string =
     (if orthography_profile_rules tk = None then Inr string
      else
        (case rules_loop re tk [0 ..< length (op_rules tk)] (NFD u string) of
           Inl e \<Rightarrow> Inl e
         | Inr result \<Rightarrow> Inr (NFD u result)))"

definition tokenize ::
  "unicode_lib \<Rightarrow> 'p regex_lib \<Rightarrow> 'p Tokenizer \<Rightarrow> pystr \<Rightarrow> pystr \<Rightarrow> error + pystr" where
  "tokenize u re tk string column =
     (if orthography_profile tk \<noteq> None \<and> orthography_profile_rules tk \<noteq> None then
        (case transform u re tk string column of
           Inl e \<Rightarrow> Inl e
         | Inr s \<Rightarrow> rules u re tk s)
      else if orthography_profile tk = None \<and> orthography_profile_rules tk = None then
        Inr (grapheme_clusters u re string)
      else if orthography_profile tk \<noteq> None \<and> orthography_profile_rules tk = None then
        transform u re tk string column
      else rules u re tk (grapheme_clusters u re string))"

definition transform_rules ::
  "unicode_lib \<Rightarrow> 'p regex_lib \<Rightarrow> 'p Tokenizer \<Rightarrow> pystr \<Rightarrow> error + pystr" where
  "transform_rules u re tk string =
     (case transform u re tk string (str ''graphemes'') of
        Inl e \<Rightarrow> Inl e
      | Inr s \<Rightarrow> rules u re tk s)"

subsection \<open>Modifier letters and tie bars\<close>

text \<open>
  The first loop of \<open>combine_modifiers\<close>, over the reversed graphemes. \<open>result[-1]\<close> on an
  empty list raises.
\<close>

fun modifier_loop ::
  "unicode_lib \<Rightarrow> pystr list \<Rightarrow> pystr list \<Rightarrow> pystr \<Rightarrow> int \<Rightarrow> error + pystr list" where
  "modifier_loop u [] result temp count = Inr result"
| "modifier_loop u (grapheme # rest) result temp count =
     (let count = count - 1 in
      if length grapheme = 1 \<and> category u (hd grapheme) = str ''Lm'' then
        (let temp = grapheme @ temp in
         if count = 0 then
           (if result = [] then Inl IndexError
            else modifier_loop u rest (butlast result @ [temp @ last result]) temp count)
         else modifier_loop u rest result temp count)
      else modifier_loop u rest (result @ [grapheme @ temp]) [] count)"

text \<open>
  The second loop, over the segments in reading order. \<open>segments[i + 1]\<close> past the end
  raises, and so does \<open>segments[i][-1]\<close> on an empty segment.
\<close>

function tie_bars :: "pystr list \<Rightarrow> nat \<Rightarrow> pystr list \<Rightarrow> error + pystr list" where
  "tie_bars segments i r =
     (if i < length segments then
        (if segments ! i = [] then Inl IndexError
         else if last (segments ! i) \<in> set [865, 860] then
           (if i + 1 < length segments
            then tie_bars segments (i + 2) (r @ [segments ! i @ segments ! (i + 1)])
            else Inl IndexError)
         else tie_bars segments (i + 1) (r @ [segments ! i]))
      else Inr r)"
  by pat_completeness auto
termination
  by (relation "measure (\<lambda>(segments, i, r). length segments - i)") auto

declare tie_bars.simps [simp del]

definition combine_modifiers :: "unicode_lib \<Rightarrow> pystr \<Rightarrow> error + pystr" where
  "combine_modifiers u string =
     (let graphemes = py_split string in
      case modifier_loop u (rev graphemes) [] [] (int (length graphemes)) of
        Inl e \<Rightarrow> Inl e
      | Inr result \<Rightarrow>
          (case tie_bars (rev result) 0 [] of
             Inl e \<Rightarrow> Inl e
           | Inr r \<Rightarrow> Inr (py_join (str '' '') r)))"

definition tokenize_ipa :: "unicode_lib \<Rightarrow> 'p regex_lib \<Rightarrow> pystr \<Rightarrow> error + pystr" where
  "tokenize_ipa u re string =
     combine_modifiers u (grapheme_clusters u re (NFD u string))"

section \<open>Notions used in the statements\<close>

subsection \<open>Rows of a profile\<close>

text \<open>
  A line of a profile that, stripped, is neither empty nor a comment is a header line
  when it starts with \<open>graphemes\<close> in any case, and a data row otherwise. The grapheme of
  a data row is the stripped first tab-separated field of the normalized line, and its
  width is the number of its tab-separated fields.
\<close>

definition is_header_line :: "unicode_lib \<Rightarrow> pystr \<Rightarrow> bool" where
  "is_header_line u l \<longleftrightarrow>
     (let line = py_strip l in
      \<not> (py_startswith line (str ''#'') \<or> line = []) \<and>
      py_startswith (lower u line) (str ''graphemes''))"

definition is_data_row :: "unicode_lib \<Rightarrow> pystr \<Rightarrow> bool" where
  "is_data_row u l \<longleftrightarrow>
     (let line = py_strip l in
      \<not> (py_startswith line (str ''#'') \<or> line = []) \<and>
      \<not> py_startswith (lower u line) (str ''graphemes''))"

definition row_grapheme :: "unicode_lib \<Rightarrow> pystr \<Rightarrow> pystr" where
  "row_grapheme u l = py_strip (hd (py_split_sep (NFD u (py_strip l)) 9))"

definition row_width :: "unicode_lib \<Rightarrow> pystr \<Rightarrow> nat" where
  "row_width u l = length (py_split_sep (NFD u (py_strip l)) 9)"

text \<open>
  The profiles the statement on duplicates is about: only the first line that is not
  skipped may be a header line.
\<close>

definition single_header :: "unicode_lib \<Rightarrow> pystr list \<Rightarrow> bool" where
  "single_header u f \<longleftrightarrow>
     list_all (\<lambda>l. \<not> is_header_line u l)
       (tl (filter (\<lambda>l. is_header_line u l \<or> is_data_row u l) f))"

text \<open>Line \<open>j\<close> (counted from 0) is a data row whose grapheme an earlier data row has.\<close>

definition repeats :: "unicode_lib \<Rightarrow> pystr list \<Rightarrow> nat \<Rightarrow> bool" where
  "repeats u f j \<longleftrightarrow>
     j < length f \<and> is_data_row u (f ! j) \<and>
     (\<exists>i \<in> {0 ..< j}. is_data_row u (f ! i) \<and> row_grapheme u (f ! i) = row_grapheme u (f ! j))"

text \<open>The same when the graphemes in \<open>G\<close> have been read before the first line.\<close>

definition repeats_in :: "unicode_lib \<Rightarrow> pystr set \<Rightarrow> pystr list \<Rightarrow> nat \<Rightarrow> bool" where
  "repeats_in u G f j \<longleftrightarrow>
     j < length f \<and> is_data_row u (f ! j) \<and>
     (row_grapheme u (f ! j) \<in> G \<or>
      (\<exists>i \<in> {0 ..< j}. is_data_row u (f ! i) \<and> row_grapheme u (f ! i) = row_grapheme u (f ! j)))"

text \<open>
  The column labels declared before line \<open>k\<close>, and a data row at line \<open>k\<close> that has more
  than one column and more columns than labels are declared before it. \<open>too_wide_in\<close> is
  the same when \<open>nl\<close> labels have been declared before the first line.
\<close>

definition header_labels :: "unicode_lib \<Rightarrow> pystr \<Rightarrow> pystr list" where
  "header_labels u l = map (\<lambda>t. py_strip (lower u t)) (py_split_sep (py_strip l) 9)"

definition labels_before :: "unicode_lib \<Rightarrow> pystr list \<Rightarrow> nat \<Rightarrow> pystr list" where
  "labels_before u f k = concat (map (header_labels u) (filter (is_header_line u) (take k f)))"

definition too_wide :: "unicode_lib \<Rightarrow> pystr list \<Rightarrow> nat \<Rightarrow> bool" where
  "too_wide u f k \<longleftrightarrow>
     k < length f \<and> is_data_row u (f ! k) \<and> row_width u (f ! k) \<noteq> 1 \<and>
     length (labels_before u f k) < row_width u (f ! k)"

definition too_wide_in :: "unicode_lib \<Rightarrow> nat \<Rightarrow> pystr list \<Rightarrow> nat \<Rightarrow> bool" where
  "too_wide_in u nl f k \<longleftrightarrow>
     k < length f \<and> is_data_row u (f ! k) \<and> row_width u (f ! k) \<noteq> 1 \<and>
     nl + length (labels_before u f k) < row_width u (f ! k)"

subsection \<open>Lines of a rules file\<close>

text \<open>
  A rule line is a line that \<open>_init_rules\<close> does not skip. It carries a pattern, its first
  comma-separated field, and a usable replacement when it has exactly two fields.
\<close>

definition is_rule_line :: "pystr \<Rightarrow> bool" where
  "is_rule_line l \<longleftrightarrow>
     (let line = py_strip l in \<not> (py_startswith line (str ''#'') \<or> line = []))"

definition rule_fields :: "unicode_lib \<Rightarrow> pystr \<Rightarrow> pystr list" where
  "rule_fields u l = py_split_sep (NFD u (py_strip l)) 44"

definition pattern_count :: "pystr list \<Rightarrow> nat" where
  "pattern_count f = length (filter is_rule_line f)"

definition replacement_count :: "unicode_lib \<Rightarrow> pystr list \<Rightarrow> nat" where
  "replacement_count u f =
     length (filter (\<lambda>l. is_rule_line l \<and> length (rule_fields u l) = 2) f)"

subsection \<open>Rules in sequence\<close>

text \<open>
  The rule engine as the specification words it: each rule is searched for in the result
  of the rules before it, and substituted there when it matches. \<open>None\<close> when a
  substitution is refused.
\<close>

fun apply_in_sequence :: "'p regex_lib \<Rightarrow> ('p \<times> pystr) list \<Rightarrow> pystr \<Rightarrow> pystr option" where
  "apply_in_sequence re [] s = Some s"
| "apply_in_sequence re ((p, repl) # rs) s =
     (if re_search re p s then
        (case re_sub re p repl s of
           None \<Rightarrow> None
         | Some s' \<Rightarrow> apply_in_sequence re rs s')
      else apply_in_sequence re rs s)"

subsection \<open>Remapping a token\<close>

text \<open>
  What one token contributes to the output of column remapping, as the specification has
  it: a marker stays, a grapheme mapped to \<open>NULL\<close> contributes nothing, any other
  grapheme contributes its mapped value. \<open>None\<close> when the token has no mapping.
\<close>

definition remap_token :: "'p Tokenizer \<Rightarrow> pystr \<Rightarrow> pystr \<Rightarrow> pystr list option" where
  "remap_token tk column token =
     (if token = str ''#'' \<or> token = str ''?'' then Some [token]
      else case map_of (mappings tk) (token, column) of
             None \<Rightarrow> None
           | Some target \<Rightarrow> Some (if target = str ''NULL'' then [] else [target]))"

subsection \<open>Tie bars\<close>

definition ends_in_tie_bar :: "pystr \<Rightarrow> bool" where
  "ends_in_tie_bar segment \<longleftrightarrow> segment \<noteq> [] \<and> (last segment = 865 \<or> last segment = 860)"

text \<open>The segments that the first loop of \<open>combine_modifiers\<close> hands to the second.\<close>

definition merged_segments :: "unicode_lib \<Rightarrow> pystr \<Rightarrow> pystr list option" where
  "merged_segments u string =
     (let graphemes = py_split string in
      case modifier_loop u (rev graphemes) [] [] (int (length graphemes)) of
        Inl e \<Rightarrow> None
      | Inr result \<Rightarrow> Some (rev result))"

text \<open>
  A segment that the first loop takes for a modifier letter, and the number of segments
  at the end of a list that end in a tie bar, one after the other.
\<close>

definition is_modifier :: "unicode_lib \<Rightarrow> pystr \<Rightarrow> bool" where
  "is_modifier u g \<longleftrightarrow> length g = 1 \<and> category u (hd g) = str ''Lm''"

definition trailing_tie_bars :: "pystr list \<Rightarrow> nat" where
  "trailing_tie_bars segments = length (takeWhile ends_in_tie_bar (rev segments))"

section \<open>Instances for running the model\<close>

text \<open>
  On ASCII text the Unicode tables are simple: NFD changes nothing and \<open>lower\<close> maps
  \<open>A\<close>--\<open>Z\<close> to \<open>a\<close>--\<open>z\<close>. \<open>ascii_lib\<close> has these, and the categories of the ASCII
  letters, of the modifier letter U+02B0 and of the combining marks U+035C and U+0361;
  the examples below only use it on such text.
\<close>

definition ascii_lib :: unicode_lib where
  "ascii_lib =
     \<lparr>NFD = (\<lambda>s. s),
      lower = map (\<lambda>c. if 65 \<le> c \<and> c \<le> 90 then c + 32 else c),
      category = (\<lambda>c. if c = 688 then str ''Lm''
                       else if 97 \<le> c \<and> c \<le> 122 then str ''Ll''
                       else if 65 \<le> c \<and> c \<le> 90 then str ''Lu''
                       else if c = 860 \<or> c = 865 then str ''Mn'' else str ''Cn'')\<rparr>"

text \<open>
  A regular-expression engine for patterns without metacharacters: the compiled
  pattern is its text, a match is an occurrence, and \<open>sub\<close> replaces the occurrences
  from the left. Its \<open>\X\<close> splits a text into single code points, as Unicode does for
  text without combining marks.
\<close>

definition occurs :: "pystr \<Rightarrow> pystr \<Rightarrow> bool" where
  "occurs p s = list_ex (\<lambda>i. py_startswith (drop i s) p) [0 ..< Suc (length s)]"

definition literal_re :: "pystr regex_lib" where
  "literal_re =
     \<lparr>re_compile = Some,
      re_search = occurs,
      re_sub = (\<lambda>p repl s. Some (py_replace s p repl)),
      findall_X = map (\<lambda>c. [c])\<rparr>"

text \<open>\<open>Tokenizer(profile).graphemes(string)\<close> for a profile with the lines \<open>prf\<close> and no rules.\<close>

definition profile_graphemes ::
  "unicode_lib \<Rightarrow> 'p regex_lib \<Rightarrow> pystr list \<Rightarrow> pystr \<Rightarrow> error + pystr" where
  "profile_graphemes u re prf string =
     (case Tokenizer_init u re (str ''profile'') (Some prf) None of
        Inl e \<Rightarrow> Inl e
      | Inr tk \<Rightarrow> Inr (graphemes u re tk string))"

text \<open>
  A profile in which the longest grapheme at the start of \<open>abc\<close> leads to a dead end,
  and the trie \<open>Tree.__init__\<close> builds from it.
\<close>

definition abc_profile :: "pystr list" where
  "abc_profile = [str ''graphemes'', str ''a'', str ''ab'', str ''bc'']"

definition abc_tree :: TreeNode where
  "abc_tree =
     TreeNode []
       [(97, TreeNode [97] [(98, TreeNode [98] [] True)] True),
        (98, TreeNode [98] [(99, TreeNode [99] [] True)] False)]
       True"

text \<open>Profiles and rules files used as examples; \<open>tab\<close> separates the columns.\<close>

definition tab :: pystr where "tab = [9]"

definition dup_profile :: "pystr list" where
  "dup_profile =
     [str ''graphemes'' @ tab @ str ''ipa'', str ''a'' @ tab @ str ''x'',
      str ''b'' @ tab @ str ''y'', str ''a'' @ tab @ str ''z'']"

definition wide_profile :: "pystr list" where
  "wide_profile = [str ''graphemes'', str ''a'' @ tab @ str ''x'', str ''a'' @ tab @ str ''y'']"

definition remap_profile :: "pystr list" where
  "remap_profile =
     [str ''Graphemes'' @ tab @ str ''IPA'', str ''a'' @ tab @ str ''1'',
      str ''b'' @ tab @ str ''NULL'', str ''c'' @ tab @ str ''3'']"

definition remap_tokenizer :: "pystr Tokenizer" where
  "remap_tokenizer =
     (case Tokenizer_init ascii_lib literal_re (str ''p'') (Some remap_profile) None of
        Inl e \<Rightarrow> no_attributes | Inr tk \<Rightarrow> tk)"

text \<open>A profile whose row \<open>b\<close> has one column only, so that \<open>b\<close> has no mapping.\<close>

definition partial_profile :: "pystr list" where
  "partial_profile = [str ''graphemes'' @ tab @ str ''ipa'', str ''a'' @ tab @ str ''1'', str ''b'']"

definition partial_tokenizer :: "pystr Tokenizer" where
  "partial_tokenizer =
     (case Tokenizer_init ascii_lib literal_re (str ''p'') (Some partial_profile) None of
        Inl e \<Rightarrow> no_attributes | Inr tk \<Rightarrow> tk)"

text \<open>Rules files.\<close>

definition three_patterns :: "pystr list" where
  "three_patterns = [str ''a, b'', str ''# comment'', str ''c, d'', str ''e'']"

definition two_rules :: "pystr list" where
  "two_rules = [str ''A, B'', str '''', str ''B, C'']"

definition two_rules_tokenizer :: "pystr Tokenizer" where
  "two_rules_tokenizer =
     (case Tokenizer_init ascii_lib literal_re (str ''p'') None (Some two_rules) of
        Inl e \<Rightarrow> no_attributes | Inr tk \<Rightarrow> tk)"

section \<open>Evaluation\<close>

lemmas py_eval =
  py_strip_def py_split_def py_split_sep_def py_startswith_def py_replace_def
  py_lstrip_chars_def py_rstrip_chars_def isspace_def str_def tab_def
  ascii_lib_def literal_re_def occurs_def Let_def

lemmas parse_eval = parse_def private_parse.simps parse_loop.simps

lemmas loading_eval =
  Tokenizer_init_def Tree_init_def init_profile_def profile_line_def init_rules_def
  rules_line_def no_attributes_def

lemmas graphemes_eval =
  profile_graphemes_def graphemes_def characters_def find_missing_characters_def

section \<open>The segmenter\<close>

lemma lookup_path_snoc:
  "lookup_path node (p @ [c]) =
     (case lookup_path node p of None \<Rightarrow> None | Some n \<Rightarrow> map_of (children n) c)"
  by (induction p arbitrary: node) (auto split: option.splits)

lemma lookup_path_append_None:
  "lookup_path node p = None \<Longrightarrow> lookup_path node (p @ q) = None"
  by (induction p arbitrary: node) (auto split: option.splits)

lemma lookup_path_take_None:
  assumes "lookup_path node (take j line) = None" and "j \<le> k"
  shows "lookup_path node (take k line) = None"
proof -
  have "take k line = take j line @ take (k - j) (drop j line)"
    using assms(2) by (metis le_add_diff_inverse take_add)
  then show ?thesis
    using assms(1) by (simp add: lookup_path_append_None)
qed

lemma parse_loop_filter:
  assumes "lookup_path root (take cur line) = Some node" and "cur \<le> length line"
  shows "parse_loop root node line cur acc =
     (case filter (\<lambda>k. terminal root (take k line) \<and> private_parse root (drop k line) \<noteq> [])
             (rev [Suc cur ..< Suc (length line)]) of
        [] \<Rightarrow> acc
      | k # _ \<Rightarrow> take k line @ str '' '' @ private_parse root (drop k line))"
  using assms
proof (induction "length line - cur" arbitrary: cur node acc)
  case 0
  then have "cur = length line" by simp
  then show ?case by (simp add: parse_loop.simps)
next
  case (Suc n)
  let ?P = "\<lambda>k. terminal root (take k line) \<and> private_parse root (drop k line) \<noteq> []"
  from Suc.hyps(2) have lt: "cur < length line" by simp
  have tk: "take (Suc cur) line = take cur line @ [line ! cur]"
    using lt by (simp add: take_Suc_conv_app_nth)
  have up: "[Suc cur ..< Suc (length line)] = Suc cur # [Suc (Suc cur) ..< Suc (length line)]"
    using lt by (simp add: upt_conv_Cons)
  show ?case
  proof (cases "map_of (children node) (line ! cur)")
    case None
    have "lookup_path root (take (Suc cur) line) = None"
      using Suc.prems(1) None by (simp add: tk lookup_path_snoc)
    then have "\<And>k. Suc cur \<le> k \<Longrightarrow> \<not> ?P k"
      using lookup_path_take_None by (simp add: terminal_def)
    then have "filter ?P (rev [Suc cur ..< Suc (length line)]) = []"
      by (auto simp: filter_empty_conv)
    then show ?thesis
      using None lt by (simp add: parse_loop.simps)
  next
    case (Some node')
    have path: "lookup_path root (take (Suc cur) line) = Some node'"
      using Suc.prems(1) Some by (simp add: tk lookup_path_snoc)
    have n: "n = length line - Suc cur" using Suc.hyps(2) by simp
    have le: "Suc cur \<le> length line" using lt by simp
    note IH = Suc.hyps(1)[OF n path le]
    have tm: "terminal root (take (Suc cur) line) = sentinel node'"
      using path by (simp add: terminal_def)
    let ?F = "filter ?P (rev [Suc (Suc cur) ..< Suc (length line)])"
    have flt: "filter ?P (rev [Suc cur ..< Suc (length line)]) =
        ?F @ (if ?P (Suc cur) then [Suc cur] else [])"
      by (subst up) simp
    have step: "parse_loop root node line cur acc =
        parse_loop root node' line (Suc cur)
          (if ?P (Suc cur)
           then take (Suc cur) line @ str '' '' @ private_parse root (drop (Suc cur) line)
           else acc)"
      using Some lt tm by (subst parse_loop.simps) (simp add: Let_def)
    show ?thesis
      unfolding step IH flt by (cases ?F) simp_all
  qed
qed

text \<open>
  C6 (as the code has it). The recursive parse of the empty remaining substring is the
  boundary marker alone; the public \<open>parse\<close> puts its own boundary marker and a space in
  front, so the empty word parses as \<open># #\<close>.
\<close>

theorem parse_empty_word:
  "private_parse root [] = str ''#'' \<and> parse root [] = str ''# #''"
  by (simp add: parse_def private_parse.simps str_def)

theorem parse_empty_word_counterexample:
  "parse (TreeNode [] [] True) [] \<noteq> str ''#''"
  by (simp add: parse_def private_parse.simps str_def)

lemma private_parse_prefix:
  "private_parse root line =
     (if line = [] then str ''#''
      else case parsable_prefixes root line of
             [] \<Rightarrow> []
           | k # _ \<Rightarrow> take k line @ str '' '' @ private_parse root (drop k line))"
proof -
  have "private_parse root line = parse_loop root root line 0 []" if "line \<noteq> []"
    using that by (simp add: private_parse.simps)
  moreover have "parse_loop root root line 0 [] =
     (case parsable_prefixes root line of
        [] \<Rightarrow> []
      | k # _ \<Rightarrow> take k line @ str '' '' @ private_parse root (drop k line))"
    using parse_loop_filter[of root 0 line root "[]"] by (simp add: parsable_prefixes_def)
  ultimately show ?thesis
    by (simp add: private_parse.simps)
qed

text \<open>
  C1. The parse of a non-empty line is built from the longest prefix that ends at a
  terminal node and whose remaining suffix parses: that prefix, a space, and the parse of
  the suffix. Longer terminal prefixes whose suffix does not parse leave the result of a
  shorter one in place, and when there is no such prefix the parse is empty. The public
  \<open>parse\<close> puts the boundary marker in front of a non-empty result.
\<close>

theorem parse_longest_parsable_prefix:
  "private_parse root line =
     (if line = [] then str ''#''
      else case parsable_prefixes root line of
             [] \<Rightarrow> []
           | k # _ \<Rightarrow> take k line @ str '' '' @ private_parse root (drop k line))
   \<and> parse root line =
     (if private_parse root line = [] then [] else str ''# '' @ private_parse root line)"
  using private_parse_prefix[of root line] by (simp add: parse_def)

text \<open>
  With the graphemes \<open>a\<close>, \<open>ab\<close> and \<open>bc\<close>, the longest grapheme at the start of
  \<open>abc\<close> is \<open>ab\<close>, but \<open>c\<close> does not parse; the parse is the one found at \<open>a\<close>.
\<close>

lemma parse_abc:
  "parsable_prefixes abc_tree (str ''abc'') = [1] \<and>
   parse abc_tree (str ''abc'') = str ''# a bc #''"
  by (simp add: parsable_prefixes_def terminal_def parse_def private_parse.simps
        parse_loop.simps abc_tree_def str_def upt_rec)

subsection \<open>The trie of a profile\<close>

lemma map_of_snoc:
  "map_of (xs @ [(c, v)]) d =
     (case map_of xs d of Some x \<Rightarrow> Some x | None \<Rightarrow> if d = c then Some v else None)"
  by (induction xs) auto

lemma terminal_Nil [simp]: "terminal n [] = sentinel n"
  by (simp add: terminal_def)

lemma terminal_Cons:
  "terminal n (d # ds) =
     (case map_of (children n) d of None \<Rightarrow> False | Some child \<Rightarrow> terminal child ds)"
  by (simp add: terminal_def split: option.splits)

lemma terminal_leaf [simp]: "terminal (TreeNode ch [] b) p \<longleftrightarrow> p = [] \<and> b"
  by (cases p) (simp_all add: terminal_Cons)

lemma terminal_addMultigraph:
  "terminal (addMultigraph node g) p \<longleftrightarrow> terminal node p \<or> p = g"
proof (induction g arbitrary: node p)
  case Nil
  then show ?case by (cases p) (simp_all add: terminal_Cons)
next
  case (Cons c cs)
  show ?case
  proof (cases p)
    case Nil
    then show ?thesis by (simp split: option.splits)
  next
    case (Cons d ds)
    then show ?thesis
      using Cons.IH
      by (auto simp: terminal_Cons map_of_snoc update_conv' split: option.splits)
  qed
qed

lemma terminal_foldl_addMultigraph:
  "terminal (foldl addMultigraph node gs) p \<longleftrightarrow> terminal node p \<or> p \<in> set gs"
  by (induction gs arbitrary: node) (auto simp: terminal_addMultigraph)

lemma split_sep_nonempty: "split_sep sep w s \<noteq> []"
  by (induction s arbitrary: w) auto

lemma normalized_rows_nonempty:
  "r \<in> set (normalized_rows u fl sep skip) \<Longrightarrow> r \<noteq> []"
  by (induction fl) (auto simp: Let_def py_split_sep_def split_sep_nonempty split: if_splits)

lemma add_rows_later:
  assumes "\<forall>r \<in> set rows. r \<noteq> []" and "i > 0"
  shows "add_rows u root i rows = Inr (foldl addMultigraph root (map hd rows))"
  using assms by (induction rows arbitrary: root i) (auto split: list.splits)

lemma add_rows_first:
  assumes "\<forall>r \<in> set rows. r \<noteq> []"
  shows "add_rows u root 0 rows =
     Inr (foldl addMultigraph root
       (case rows of [] \<Rightarrow> []
        | r # rs \<Rightarrow> if py_startswith (lower u (hd r)) (str ''graphemes'') then map hd rs
                    else map hd (r # rs)))"
proof (cases rows)
  case Nil
  then show ?thesis by simp
next
  case (Cons r rs)
  then obtain t ts where r: "r = t # ts" using assms by (cases r) auto
  have "\<forall>r \<in> set rs. r \<noteq> []" using assms Cons by simp
  then show ?thesis
    using Cons r by (simp add: add_rows_later)
qed

text \<open>Building the trie never fails, and it is the trie of the profile's graphemes.\<close>

lemma Tree_init_foldl:
  "Tree_init u fl = Inr (foldl addMultigraph (TreeNode [] [] True) (Tree_graphemes u fl))"
  unfolding Tree_init_def Tree_graphemes_def
  by (rule add_rows_first) (simp add: normalized_rows_nonempty)

lemma terminal_Tree_init:
  "Tree_init u fl = Inr root \<Longrightarrow>
     terminal root p \<longleftrightarrow> p = [] \<or> p \<in> set (Tree_graphemes u fl)"
  unfolding Tree_init_foldl
  by (auto simp only: terminal_foldl_addMultigraph terminal_leaf sum.inject)

lemma private_parse_tokens:
  "private_parse root w \<noteq> [] \<Longrightarrow>
     \<exists>gs. private_parse root w = concat (map (\<lambda>g. g @ str '' '') gs) @ str ''#'' \<and>
          concat gs = w \<and> (\<forall>g \<in> set gs. g \<noteq> [] \<and> terminal root g)"
proof (induction "length w" arbitrary: w rule: less_induct)
  case less
  show ?case
  proof (cases "w = []")
    case True
    then show ?thesis by (auto simp: private_parse.simps intro: exI[of _ "[]"])
  next
    case False
    let ?ks = "parsable_prefixes root w"
    from False less.prems obtain k ks where ks: "?ks = k # ks"
      and pp: "private_parse root w = take k w @ str '' '' @ private_parse root (drop k w)"
      using private_parse_prefix[of root w] by (cases ?ks) auto
    have "k \<in> set ?ks" using ks by simp
    then have k: "1 \<le> k" "k \<le> length w" "terminal root (take k w)"
      "private_parse root (drop k w) \<noteq> []"
      by (auto simp: parsable_prefixes_def)
    have "length (drop k w) < length w" using k False by simp
    from less.hyps[OF this k(4)] obtain gs where gs:
      "private_parse root (drop k w) = concat (map (\<lambda>g. g @ str '' '') gs) @ str ''#''"
      "concat gs = drop k w" "\<forall>g \<in> set gs. g \<noteq> [] \<and> terminal root g"
      by blast
    have "take k w \<noteq> []" using k False by simp
    then show ?thesis
      using pp gs k(3) by (intro exI[of _ "take k w # gs"]) simp
  qed
qed

text \<open>
  C8. For the trie built from a profile, a non-empty parse of a word \<open>w\<close> is the boundary
  marker, then graphemes of the profile each followed by a space, then the boundary
  marker; and the graphemes, concatenated, are \<open>w\<close>.
\<close>

theorem parse_lossless:
  assumes "Tree_init u fl = Inr root" and "parse root w \<noteq> []"
  shows "\<exists>gs. parse root w = str ''# '' @ concat (map (\<lambda>g. g @ str '' '') gs) @ str ''#'' \<and>
           concat gs = w \<and> set gs \<subseteq> set (Tree_graphemes u fl)"
proof -
  from assms(2) have ne: "private_parse root w \<noteq> []"
    by (auto simp: parse_def Let_def split: if_splits)
  then obtain gs where gs:
    "private_parse root w = concat (map (\<lambda>g. g @ str '' '') gs) @ str ''#''"
    "concat gs = w" "\<forall>g \<in> set gs. g \<noteq> [] \<and> terminal root g"
    using private_parse_tokens by blast
  have "set gs \<subseteq> set (Tree_graphemes u fl)"
    using gs(3) terminal_Tree_init[OF assms(1)] by auto
  moreover have "parse root w = str ''# '' @ private_parse root w"
    using ne by (simp add: parse_def)
  ultimately show ?thesis
    using gs(1,2) by auto
qed

theorem parse_lossless_witness:
  "Tree_init ascii_lib abc_profile = Inr abc_tree \<and> parse abc_tree (str ''abc'') \<noteq> [] \<and>
   (\<exists>gs. parse abc_tree (str ''abc'') =
            str ''# '' @ concat (map (\<lambda>g. g @ str '' '') gs) @ str ''#'' \<and>
          concat gs = str ''abc'' \<and> set gs \<subseteq> set (Tree_graphemes ascii_lib abc_profile))"
proof -
  have t: "Tree_init ascii_lib abc_profile = Inr abc_tree"
    by (simp add: Tree_init_def py_eval abc_profile_def abc_tree_def)
  have p: "parse abc_tree (str ''abc'') \<noteq> []"
    by (simp add: parse_eval py_eval abc_tree_def)
  show ?thesis
    using t p parse_lossless[OF t p] by simp
qed

section \<open>Grapheme tokenization\<close>

text \<open>
  C5 (as the code has it). A word that does not parse as a whole is tokenized into
  characters, and every character that is not a grapheme of the profile becomes \<open>?\<close>.
  With the graphemes \<open>uu\<close>, \<open>b\<close> and \<open>o\<close> in the profile, \<open>uubo uubo\<close> is tokenized as
  \<open>uu b o # uu b o\<close>.
\<close>

theorem graphemes_uubo:
  "profile_graphemes ascii_lib literal_re
     [str ''graphemes'', str ''uu'', str ''b'', str ''o''] (str ''uubo uubo'')
   = Inr (str ''uu b o # uu b o'')"
  by (simp add: graphemes_eval loading_eval parse_eval py_eval)

text \<open>With \<open>uu\<close> as the only entry, no word parses and no character is in the profile.\<close>

theorem graphemes_uu_only_counterexample:
  "profile_graphemes ascii_lib literal_re [str ''uu''] (str ''uubo uubo'')
     = Inr (str ''? ? ? ? ? ? ? ?'') \<and>
   profile_graphemes ascii_lib literal_re [str ''graphemes'', str ''uu''] (str ''uubo uubo'')
     = Inr (str ''? ? ? ? ? ? ? ?'') \<and>
   profile_graphemes ascii_lib literal_re [str ''uu''] (str ''uubo uubo'')
     \<noteq> Inr (str ''uu b o # uu b o'')"
  by (simp add: graphemes_eval loading_eval parse_eval py_eval)

section \<open>Loading a profile\<close>

lemma set_mappings_Inl: "set_mappings u tk g ts i = Inl e \<Longrightarrow> e = IndexError"
  by (induction ts arbitrary: tk i) (auto split: if_splits)

lemma set_mappings_Inr:
  "set_mappings u tk g ts i = Inr tk' \<Longrightarrow> tk' = tk\<lparr>mappings := mappings tk'\<rparr>"
  by (induction ts arbitrary: tk i) (fastforce split: if_splits)+

lemma dom_map_of_update:
  "dom (map_of (AList.update k v al)) = insert k (dom (map_of al))"
  by (simp add: update_conv')

lemma profile_line_skip:
  "\<not> is_data_row u l \<Longrightarrow>
     \<exists>cl. profile_line u n tk l = Inr (tk\<lparr>column_labels := cl\<rparr>)"
  by (auto simp: profile_line_def is_data_row_def Let_def intro: exI[of _ "column_labels tk"])

lemma profile_line_dup:
  "is_data_row u l \<Longrightarrow> row_grapheme u l \<in> dom (map_of (op_graphemes tk)) \<Longrightarrow>
     profile_line u n tk l = Inl (DuplicateGrapheme n)"
  using split_sep_nonempty[of 9 "[]" "NFD u (py_strip l)"]
  by (auto simp: profile_line_def is_data_row_def row_grapheme_def Let_def py_split_sep_def
        split: list.splits)

lemma profile_line_new:
  assumes "is_data_row u l" and "row_grapheme u l \<notin> dom (map_of (op_graphemes tk))"
  shows "profile_line u n tk l = Inl IndexError \<or>
     (\<exists>m. profile_line u n tk l =
        Inr (tk\<lparr>op_graphemes := AList.update (row_grapheme u l) 1 (op_graphemes tk),
                mappings := m\<rparr>))"
proof -
  obtain t0 ts where sp: "py_split_sep (NFD u (py_strip l)) 9 = t0 # ts"
    using split_sep_nonempty[of 9 "[]" "NFD u (py_strip l)"]
    by (cases "py_split_sep (NFD u (py_strip l)) 9") (auto simp: py_split_sep_def)
  let ?tk = "tk\<lparr>op_graphemes := AList.update (row_grapheme u l) 1 (op_graphemes tk)\<rparr>"
  have none: "map_of (op_graphemes tk) (py_strip t0) = None"
    using assms(2) sp by (auto simp: row_grapheme_def)
  show ?thesis
  proof (cases "ts = []")
    case True
    then have "profile_line u n tk l = Inr (?tk\<lparr>mappings := mappings tk\<rparr>)"
      using assms(1) sp none
      by (simp add: profile_line_def is_data_row_def row_grapheme_def Let_def)
    then show ?thesis by blast
  next
    case False
    then have eq: "profile_line u n tk l = set_mappings u ?tk (row_grapheme u l) (t0 # ts) 0"
      using assms(1) sp none
      by (simp add: profile_line_def is_data_row_def row_grapheme_def Let_def)
    show ?thesis
    proof (cases "set_mappings u ?tk (row_grapheme u l) (t0 # ts) 0")
      case (Inl e)
      then show ?thesis using eq set_mappings_Inl[OF Inl] by simp
    next
      case (Inr tk')
      have "tk' = ?tk\<lparr>mappings := mappings tk'\<rparr>"
        by (rule set_mappings_Inr[OF Inr])
      then have "profile_line u n tk l = Inr (?tk\<lparr>mappings := mappings tk'\<rparr>)"
        using eq Inr by simp
      then show ?thesis by blast
    qed
  qed
qed

lemma repeats_in_0:
  "repeats_in u G (l # ls) 0 \<longleftrightarrow> is_data_row u l \<and> row_grapheme u l \<in> G"
  by (auto simp: repeats_in_def)

lemma bex_upt_Suc:
  "(\<exists>i \<in> {0 ..< Suc j}. P i) \<longleftrightarrow> P 0 \<or> (\<exists>i \<in> {0 ..< j}. P (Suc i))"
proof
  assume "\<exists>i \<in> {0 ..< Suc j}. P i"
  then obtain i where i: "i < Suc j" "P i" by auto
  then show "P 0 \<or> (\<exists>i \<in> {0 ..< j}. P (Suc i))"
    by (cases i) auto
next
  assume "P 0 \<or> (\<exists>i \<in> {0 ..< j}. P (Suc i))"
  then show "\<exists>i \<in> {0 ..< Suc j}. P i"
    by (metis Suc_less_eq atLeastLessThan_iff le0 zero_less_Suc)
qed

lemma repeats_in_Suc:
  "repeats_in u G (l # ls) (Suc j) \<longleftrightarrow>
     repeats_in u (if is_data_row u l then insert (row_grapheme u l) G else G) ls j"
  unfolding repeats_in_def bex_upt_Suc by auto

lemma repeats_in_empty: "repeats_in u {} f j \<longleftrightarrow> repeats u f j"
  by (simp add: repeats_in_def repeats_def)

lemma profile_line_result:
  "profile_line u n tk l = Inl e \<Longrightarrow> e = IndexError \<or> e = DuplicateGrapheme n"
  "profile_line u n tk l = Inr tk' \<Longrightarrow>
     op_rules tk' = op_rules tk \<and> op_replacements tk' = op_replacements tk"
  using profile_line_skip[of u l n tk] profile_line_dup[of u l tk n]
    profile_line_new[of u l tk n]
  by (cases "is_data_row u l"; cases "row_grapheme u l \<in> dom (map_of (op_graphemes tk))";
      auto)+

lemma init_profile_loop_result:
  "init_profile_loop u c tk f = Inl e \<Longrightarrow> e \<noteq> CountMismatchValueError"
  "init_profile_loop u c tk f = Inr tk' \<Longrightarrow>
     op_rules tk' = op_rules tk \<and> op_replacements tk' = op_replacements tk"
proof (induction f arbitrary: tk c)
  case Nil
  { case 1 then show ?case by simp }
  { case 2 then show ?case by simp }
next
  case (Cons l ls)
  { case 1 then show ?case
      using Cons.IH(1) profile_line_result(1)[of u "c + 1" tk l]
      by (auto split: sum.splits) }
  { case 2 then show ?case
      using Cons.IH(2) profile_line_result(2)[of u "c + 1" tk l]
      by (auto split: sum.splits) }
qed

lemma profile_line_header:
  "is_header_line u l \<Longrightarrow>
     profile_line u n tk l =
       Inr (tk\<lparr>column_labels := column_labels tk @ header_labels u l\<rparr>)"
  by (auto simp: profile_line_def is_header_line_def header_labels_def Let_def)

lemma profile_line_blank:
  "\<not> is_header_line u l \<Longrightarrow> \<not> is_data_row u l \<Longrightarrow> profile_line u n tk l = Inr tk"
  by (auto simp: profile_line_def is_header_line_def is_data_row_def Let_def)

lemma set_mappings_exact:
  "(ts \<noteq> [] \<and> length (column_labels tk) < i + length ts \<longrightarrow>
      set_mappings u tk g ts i = Inl IndexError) \<and>
   (ts = [] \<or> i + length ts \<le> length (column_labels tk) \<longrightarrow>
      (\<exists>m. set_mappings u tk g ts i = Inr (tk\<lparr>mappings := m\<rparr>)))"
proof (induction ts arbitrary: tk i)
  case Nil
  then show ?case by (auto intro: exI[of _ "mappings tk"])
next
  case (Cons t ts)
  show ?case
  proof (cases "i < length (column_labels tk)")
    case False
    then show ?thesis by simp
  next
    case True
    let ?tk = "tk\<lparr>mappings :=
      AList.update (g, lower u (column_labels tk ! i)) (py_strip t) (mappings tk)\<rparr>"
    have eq: "set_mappings u tk g (t # ts) i = set_mappings u ?tk g ts (i + 1)"
      using True by simp
    have l: "column_labels ?tk = column_labels tk" by simp
    from Cons.IH[where tk = ?tk and i = "i + 1"] True show ?thesis
      unfolding eq l by (cases "ts = []") auto
  qed
qed

lemma profile_line_new_exact:
  assumes "is_data_row u l" and "row_grapheme u l \<notin> dom (map_of (op_graphemes tk))"
  shows "(row_width u l \<noteq> 1 \<and> length (column_labels tk) < row_width u l \<longrightarrow>
            profile_line u n tk l = Inl IndexError) \<and>
         (\<not> (row_width u l \<noteq> 1 \<and> length (column_labels tk) < row_width u l) \<longrightarrow>
            (\<exists>m. profile_line u n tk l =
               Inr (tk\<lparr>op_graphemes := AList.update (row_grapheme u l) 1 (op_graphemes tk),
                       mappings := m\<rparr>)))"
proof -
  obtain t0 ts where sp: "py_split_sep (NFD u (py_strip l)) 9 = t0 # ts"
    using split_sep_nonempty[of 9 "[]" "NFD u (py_strip l)"]
    by (cases "py_split_sep (NFD u (py_strip l)) 9") (auto simp: py_split_sep_def)
  then have w: "row_width u l = Suc (length ts)" by (simp add: row_width_def)
  let ?tk = "tk\<lparr>op_graphemes := AList.update (row_grapheme u l) 1 (op_graphemes tk)\<rparr>"
  have none: "map_of (op_graphemes tk) (py_strip t0) = None"
    using assms(2) sp by (auto simp: row_grapheme_def)
  show ?thesis
  proof (cases "ts = []")
    case True
    then have "profile_line u n tk l = Inr (?tk\<lparr>mappings := mappings tk\<rparr>)"
      using assms(1) sp none
      by (simp add: profile_line_def is_data_row_def row_grapheme_def Let_def)
    then show ?thesis using True w by (auto intro: exI[of _ "mappings tk"])
  next
    case False
    then have eq: "profile_line u n tk l = set_mappings u ?tk (row_grapheme u l) (t0 # ts) 0"
      using assms(1) sp none
      by (simp add: profile_line_def is_data_row_def row_grapheme_def Let_def)
    have l: "column_labels ?tk = column_labels tk" by simp
    from set_mappings_exact[where tk = ?tk and i = 0 and ts = "t0 # ts" and u = u
        and g = "row_grapheme u l"] show ?thesis
      unfolding eq l w using False by auto
  qed
qed

lemma too_wide_in_0:
  "too_wide_in u nl (l # ls) 0 \<longleftrightarrow>
     is_data_row u l \<and> row_width u l \<noteq> 1 \<and> nl < row_width u l"
  by (simp add: too_wide_in_def labels_before_def)

lemma too_wide_in_Suc:
  "too_wide_in u nl (l # ls) (Suc k) \<longleftrightarrow>
     too_wide_in u (nl + (if is_header_line u l then length (header_labels u l) else 0)) ls k"
  by (simp add: too_wide_in_def labels_before_def add.assoc)

lemma ex_less_Suc_shift:
  "(\<exists>k < Suc n. P k) \<longleftrightarrow> P 0 \<or> (\<exists>k < n. P (Suc k))"
  by (metis Suc_less_eq less_Suc_eq_0_disj zero_less_Suc)

lemma header_not_data: "is_header_line u l \<Longrightarrow> \<not> is_data_row u l"
  by (auto simp: is_header_line_def is_data_row_def Let_def)

lemma init_profile_loop_first_repeat:
  assumes "repeats_in u (dom (map_of (op_graphemes tk))) f n"
    and "\<forall>m < n. \<not> repeats_in u (dom (map_of (op_graphemes tk))) f m"
  shows "init_profile_loop u c tk f =
     (if \<exists>k < n. too_wide_in u (length (column_labels tk)) f k then Inl IndexError
      else Inl (DuplicateGrapheme (c + n + 1)))"
  using assms
proof (induction f arbitrary: tk c n)
  case Nil
  then show ?case by (simp add: repeats_in_def)
next
  case (Cons l ls)
  let ?G = "dom (map_of (op_graphemes tk))"
  let ?nl = "length (column_labels tk)"
  show ?case
  proof (cases n)
    case 0
    then have "profile_line u (c + 1) tk l = Inl (DuplicateGrapheme (c + 1))"
      using Cons.prems(1) by (simp add: repeats_in_0 profile_line_dup)
    then show ?thesis using 0 by simp
  next
    case (Suc n')
    let ?G' = "if is_data_row u l then insert (row_grapheme u l) ?G else ?G"
    let ?nl' = "?nl + (if is_header_line u l then length (header_labels u l) else 0)"
    have rep: "repeats_in u ?G' ls n'"
      using Cons.prems(1) Suc by (simp add: repeats_in_Suc)
    have first: "\<forall>m < n'. \<not> repeats_in u ?G' ls m"
      using Cons.prems(2) Suc by (auto simp: repeats_in_Suc[symmetric])
    have no0: "\<not> repeats_in u ?G (l # ls) 0"
      using Cons.prems(2) Suc by simp
    have shift: "(\<exists>k < n. too_wide_in u ?nl (l # ls) k) \<longleftrightarrow>
        too_wide_in u ?nl (l # ls) 0 \<or> (\<exists>k < n'. too_wide_in u ?nl' ls k)"
      unfolding Suc ex_less_Suc_shift too_wide_in_Suc ..
    have IH: "init_profile_loop u (c + 1) tk' ls =
        (if \<exists>k < n'. too_wide_in u ?nl' ls k then Inl IndexError
         else Inl (DuplicateGrapheme (c + n + 1)))"
      if "dom (map_of (op_graphemes tk')) = ?G'" "length (column_labels tk') = ?nl'"
      for tk' :: "'a Tokenizer"
      using Cons.IH[of tk' n' "c + 1"] rep first that Suc by simp
    consider (header) "is_header_line u l" | (data) "is_data_row u l"
      | (blank) "\<not> is_header_line u l" "\<not> is_data_row u l"
      by blast
    then show ?thesis
    proof cases
      case header
      then have nd: "\<not> is_data_row u l" by (rule header_not_data)
      let ?tk' = "tk\<lparr>column_labels := column_labels tk @ header_labels u l\<rparr>"
      have pl: "profile_line u (c + 1) tk l = Inr ?tk'"
        using header by (rule profile_line_header)
      have "init_profile_loop u (c + 1) ?tk' ls =
        (if \<exists>k < n'. too_wide_in u ?nl' ls k then Inl IndexError
         else Inl (DuplicateGrapheme (c + n + 1)))"
        using header nd by (intro IH) auto
      then show ?thesis
        using pl nd unfolding shift by (simp add: too_wide_in_0)
    next
      case blank
      have pl: "profile_line u (c + 1) tk l = Inr tk"
        using blank by (rule profile_line_blank)
      have "init_profile_loop u (c + 1) tk ls =
        (if \<exists>k < n'. too_wide_in u ?nl' ls k then Inl IndexError
         else Inl (DuplicateGrapheme (c + n + 1)))"
        using blank by (intro IH) auto
      then show ?thesis
        using pl blank unfolding shift by (simp add: too_wide_in_0)
    next
      case data
      then have nh: "\<not> is_header_line u l" using header_not_data by blast
      have new: "row_grapheme u l \<notin> ?G"
        using no0 data by (simp add: repeats_in_0)
      note ex = profile_line_new_exact[OF data new, of "c + 1"]
      show ?thesis
      proof (cases "row_width u l \<noteq> 1 \<and> ?nl < row_width u l")
        case True
        then have "profile_line u (c + 1) tk l = Inl IndexError" using ex by blast
        moreover have "too_wide_in u ?nl (l # ls) 0"
          using True data by (simp add: too_wide_in_0)
        ultimately show ?thesis unfolding shift by simp
      next
        case False
        then obtain m where pl: "profile_line u (c + 1) tk l =
            Inr (tk\<lparr>op_graphemes := AList.update (row_grapheme u l) 1 (op_graphemes tk),
                    mappings := m\<rparr>)"
          using ex by blast
        let ?tk' = "tk\<lparr>op_graphemes := AList.update (row_grapheme u l) 1 (op_graphemes tk),
                    mappings := m\<rparr>"
        have "init_profile_loop u (c + 1) ?tk' ls =
          (if \<exists>k < n'. too_wide_in u ?nl' ls k then Inl IndexError
           else Inl (DuplicateGrapheme (c + n + 1)))"
          using data nh by (intro IH) (auto simp: dom_map_of_update)
        moreover have "\<not> too_wide_in u ?nl (l # ls) 0"
          using False by (simp add: too_wide_in_0)
        ultimately show ?thesis
          using pl unfolding shift by simp
      qed
    qed
  qed
qed

lemma too_wide_in_zero: "too_wide_in u 0 f k \<longleftrightarrow> too_wide u f k"
  by (simp add: too_wide_in_def too_wide_def)

lemmas profile_defs =
  single_header_def is_header_line_def is_data_row_def row_grapheme_def repeats_def
  too_wide_def labels_before_def header_labels_def row_width_def atLeastLessThan_nat_numeral

text \<open>
  C2 (as the code has it). In a profile with its header line first, when a data row has
  the grapheme of an earlier data row, the construction fails whatever the other columns
  hold. Let \<open>n\<close> be the first line that repeats a grapheme. When no data row before
  line \<open>n\<close> has more than one column and more columns than labels are declared before
  it, the error is the duplicate error with the number of line \<open>n\<close> counted from 1;
  otherwise it is the index error that such a row raises.
\<close>

theorem duplicate_grapheme_fails:
  assumes "single_header u f" and "repeats u f j"
  shows "\<exists>n \<le> j. repeats u f n \<and> (\<forall>m < n. \<not> repeats u f m) \<and>
     Tokenizer_init u re path (Some f) rls =
       (if \<exists>k < n. too_wide u f k then Inl IndexError
        else Inl (DuplicateGrapheme (n + 1)))"
proof -
  define n where "n = (LEAST n. repeats u f n)"
  have n: "repeats u f n" "n \<le> j" "\<forall>m < n. \<not> repeats u f m"
    unfolding n_def using assms(2)
    by (auto intro: LeastI Least_le dest: not_less_Least)
  let ?tk = "no_attributes\<lparr>orthography_profile := Some (path @ str ''.prf''),
     tree := foldl addMultigraph (TreeNode [] [] True) (Tree_graphemes u f)\<rparr> :: 'a Tokenizer"
  have G: "dom (map_of (op_graphemes ?tk)) = {}" and L: "length (column_labels ?tk) = 0"
    by (simp_all add: no_attributes_def)
  have "init_profile_loop u 0 ?tk f =
     (if \<exists>k < n. too_wide_in u (length (column_labels ?tk)) f k then Inl IndexError
      else Inl (DuplicateGrapheme (0 + n + 1)))"
    using n
    by (intro init_profile_loop_first_repeat) (simp_all add: no_attributes_def repeats_in_empty)
  then have "Tokenizer_init u re path (Some f) rls =
       (if \<exists>k < n. too_wide u f k then Inl IndexError
        else Inl (DuplicateGrapheme (n + 1)))"
    unfolding L too_wide_in_zero
    by (simp add: Tokenizer_init_def Tree_init_foldl init_profile_def)
  then show ?thesis using n by blast
qed

theorem duplicate_grapheme_fails_witness:
  "single_header ascii_lib dup_profile \<and> repeats ascii_lib dup_profile 3 \<and>
   Tokenizer_init ascii_lib literal_re [] (Some dup_profile) None = Inl (DuplicateGrapheme 4)"
proof -
  have s: "single_header ascii_lib dup_profile"
    by (simp add: profile_defs py_eval dup_profile_def)
  have r: "repeats ascii_lib dup_profile 3"
    by (simp add: profile_defs py_eval dup_profile_def)
  have "Tokenizer_init ascii_lib literal_re [] (Some dup_profile) None
      = Inl (DuplicateGrapheme 4)"
    by (simp add: loading_eval py_eval dup_profile_def)
  then show ?thesis
    using s r duplicate_grapheme_fails[OF s r, of literal_re "[]" None] by simp
qed

text \<open>
  A row with more columns than the header declares stops the loading before the
  duplicate is reached, with an error that names no line.
\<close>

theorem duplicate_grapheme_counterexample:
  "single_header ascii_lib wide_profile \<and> repeats ascii_lib wide_profile 2 \<and>
   too_wide ascii_lib wide_profile 1 \<and>
   Tokenizer_init ascii_lib literal_re [] (Some wide_profile) None = Inl IndexError"
  by (simp add: profile_defs loading_eval py_eval wide_profile_def)

section \<open>Loading the rules\<close>

lemma rules_line_skip: "\<not> is_rule_line l \<Longrightarrow> rules_line u re tk l = Inr tk"
  by (auto simp: rules_line_def is_rule_line_def Let_def)

lemma rules_line_unpack:
  "is_rule_line l \<Longrightarrow> length (rule_fields u l) \<noteq> 2 \<Longrightarrow>
     rules_line u re tk l = Inl UnpackValueError"
  by (auto simp: rules_line_def is_rule_line_def rule_fields_def Let_def split: list.splits)

lemma rules_line_two:
  "is_rule_line l \<Longrightarrow> length (rule_fields u l) = 2 \<Longrightarrow>
     rules_line u re tk l = Inl RegexError \<or>
     (\<exists>r x. rules_line u re tk l =
        Inr (tk\<lparr>op_rules := op_rules tk @ [r], op_replacements := op_replacements tk @ [x]\<rparr>))"
  by (auto simp: rules_line_def is_rule_line_def rule_fields_def Let_def
        split: list.splits option.splits)

lemma rules_line_Inl:
  "rules_line u re tk l = Inl e \<Longrightarrow> e = UnpackValueError \<or> e = RegexError"
  by (auto simp: rules_line_def Let_def split: list.splits option.splits if_splits)

lemma rules_line_Inr:
  assumes "rules_line u re tk l = Inr tk'"
  shows "length (op_rules tk') = length (op_rules tk) + (if is_rule_line l then 1 else 0)"
    and "length (op_replacements tk') =
           length (op_replacements tk) + (if is_rule_line l then 1 else 0)"
    and "is_rule_line l \<Longrightarrow> length (rule_fields u l) = 2"
  using assms rules_line_skip[of l u re tk] rules_line_unpack[of l u re tk]
    rules_line_two[of l u re tk]
  by (cases "is_rule_line l"; cases "length (rule_fields u l) = 2"; auto)+

lemma init_rules_loop_Inl:
  "init_rules_loop u re tk f = Inl e \<Longrightarrow> e = UnpackValueError \<or> e = RegexError"
  by (induction f arbitrary: tk) (auto split: sum.splits dest: rules_line_Inl)

lemma init_rules_loop_Inr:
  "init_rules_loop u re tk f = Inr tk' \<Longrightarrow>
     length (op_rules tk') = length (op_rules tk) + pattern_count f \<and>
     length (op_replacements tk') = length (op_replacements tk) + pattern_count f \<and>
     replacement_count u f = pattern_count f"
proof (induction f arbitrary: tk)
  case Nil
  then show ?case by (simp add: pattern_count_def replacement_count_def)
next
  case (Cons l ls)
  then obtain tk1 where 1: "rules_line u re tk l = Inr tk1"
    and 2: "init_rules_loop u re tk1 ls = Inr tk'"
    by (auto split: sum.splits)
  show ?case
    using Cons.IH[OF 2] rules_line_Inr[OF 1]
    by (auto simp: pattern_count_def replacement_count_def)
qed

lemma init_rules_Inl:
  assumes "length (op_rules tk) = length (op_replacements tk)"
    and "init_rules u re tk f = Inl e"
  shows "e = UnpackValueError \<or> e = RegexError"
proof (cases "init_rules_loop u re tk f")
  case (Inl e')
  then show ?thesis
    using assms(2) init_rules_loop_Inl[OF Inl] by (simp add: init_rules_def)
next
  case (Inr tk')
  then show ?thesis
    using assms init_rules_loop_Inr[OF Inr] by (simp add: init_rules_def)
qed

lemma init_rules_Inr:
  assumes "init_rules u re tk f = Inr tk'"
  shows "init_rules_loop u re tk f = Inr tk'"
  using assms by (auto simp: init_rules_def split: sum.splits if_splits)

text \<open>
  C7. A rules file in which the number of patterns differs from the number of usable
  replacements, that is with a rule line that does not have exactly two comma-separated
  fields, is never loaded: \<open>_init_rules\<close> raises (when unpacking that line, or when
  compiling the pattern of an earlier line), and so the construction fails.
\<close>

theorem rules_count_mismatch_fails:
  assumes "pattern_count f \<noteq> replacement_count u f"
  shows "(init_rules u re tk f = Inl UnpackValueError \<or> init_rules u re tk f = Inl RegexError) \<and>
     isl (Tokenizer_init u re path prf (Some f))"
proof -
  have a: "init_rules u re tk f = Inl UnpackValueError \<or> init_rules u re tk f = Inl RegexError"
    for tk :: "'a Tokenizer"
  proof (cases "init_rules_loop u re tk f")
    case (Inl e)
    then show ?thesis
      using init_rules_loop_Inl[OF Inl] by (auto simp: init_rules_def)
  next
    case (Inr tk')
    then show ?thesis
      using init_rules_loop_Inr[OF Inr] assms by simp
  qed
  have "isl (init_rules u re tk f)" for tk :: "'a Tokenizer"
    using a[of tk] by auto
  then show ?thesis
    using a by (auto simp: Tokenizer_init_def split: sum.splits option.splits)
qed

theorem rules_count_mismatch_fails_witness:
  "pattern_count three_patterns = 3 \<and> replacement_count ascii_lib three_patterns = 2 \<and>
   init_rules ascii_lib literal_re no_attributes three_patterns = Inl UnpackValueError \<and>
   isl (Tokenizer_init ascii_lib literal_re [] None (Some three_patterns))"
proof -
  have c: "pattern_count three_patterns = 3" "replacement_count ascii_lib three_patterns = 2"
    by (simp_all add: pattern_count_def replacement_count_def is_rule_line_def rule_fields_def
          py_eval three_patterns_def)
  then have "pattern_count three_patterns \<noteq> replacement_count ascii_lib three_patterns"
    by simp
  from rules_count_mismatch_fails[OF this, of literal_re no_attributes "[]" None]
  have "isl (Tokenizer_init ascii_lib literal_re [] None (Some three_patterns))" by simp
  moreover
  have "init_rules ascii_lib literal_re no_attributes three_patterns = Inl UnpackValueError"
    by (simp add: loading_eval py_eval three_patterns_def)
  ultimately show ?thesis using c by simp
qed

text \<open>
  C9. The construction never raises the count-mismatch error. When it returns, the
  patterns and the replacements are of equal length: with a rules file, one of each for
  every rule line, and every rule line has exactly two fields.
\<close>

theorem rules_lists_in_lockstep:
  "Tokenizer_init u re path prf rls \<noteq> Inl CountMismatchValueError \<and>
   (\<forall>tk. Tokenizer_init u re path prf rls = Inr tk \<longrightarrow>
      length (op_rules tk) = length (op_replacements tk) \<and>
      (\<forall>f. rls = Some f \<longrightarrow>
         length (op_rules tk) = pattern_count f \<and> replacement_count u f = pattern_count f))"
proof -
  define P :: "error + 'a Tokenizer" where "P =
    (case prf of None \<Rightarrow> Inr no_attributes
     | Some f \<Rightarrow> (case Tree_init u f of Inl e \<Rightarrow> Inl e
         | Inr t \<Rightarrow> init_profile u
             (no_attributes\<lparr>orthography_profile := Some (path @ str ''.prf''), tree := t\<rparr>) f))"
  have T: "Tokenizer_init u re path prf rls =
    (case P of Inl e \<Rightarrow> Inl e
     | Inr tk \<Rightarrow> (case rls of None \<Rightarrow> Inr tk
         | Some f \<Rightarrow> init_rules u re
             (tk\<lparr>orthography_profile_rules := Some (path @ str ''.rules''),
                 op_rules := [], op_replacements := []\<rparr>) f))"
    by (simp add: Tokenizer_init_def P_def)
  have P1: "P \<noteq> Inl CountMismatchValueError"
    by (auto simp: P_def Tree_init_foldl init_profile_def split: option.splits
          dest: init_profile_loop_result(1))
  have P2: "op_rules tk = [] \<and> op_replacements tk = []" if "P = Inr tk" for tk
    using that
    by (auto simp: P_def Tree_init_foldl init_profile_def no_attributes_def split: option.splits
          dest: init_profile_loop_result(2))
  show ?thesis
  proof (cases P)
    case (Inl e)
    then show ?thesis using P1 unfolding T by simp
  next
    case (Inr tk0)
    show ?thesis
    proof (cases rls)
      case None
      then show ?thesis using Inr P2[OF Inr] unfolding T by simp
    next
      case (Some f)
      let ?tk = "tk0\<lparr>orthography_profile_rules := Some (path @ str ''.rules''),
                     op_rules := [], op_replacements := []\<rparr>"
      have eq: "Tokenizer_init u re path prf rls = init_rules u re ?tk f"
        using Inr Some unfolding T by simp
      have "init_rules u re ?tk f \<noteq> Inl CountMismatchValueError"
        using init_rules_Inl[of ?tk u re f] by auto
      moreover have "length (op_rules tk) = length (op_replacements tk) \<and>
          length (op_rules tk) = pattern_count f \<and> replacement_count u f = pattern_count f"
        if "init_rules u re ?tk f = Inr tk" for tk
        using init_rules_loop_Inr[OF init_rules_Inr[OF that]] by simp
      ultimately show ?thesis using eq Some by auto
    qed
  qed
qed

theorem rules_lists_in_lockstep_witness:
  "Tokenizer_init ascii_lib literal_re (str ''p'') None (Some two_rules) = Inr two_rules_tokenizer \<and>
   op_rules two_rules_tokenizer = [str ''A'', str ''B''] \<and>
   op_replacements two_rules_tokenizer = [str ''B'', str ''C''] \<and>
   length (op_rules two_rules_tokenizer) = pattern_count two_rules"
proof -
  have t: "Tokenizer_init ascii_lib literal_re (str ''p'') None (Some two_rules)
      = Inr two_rules_tokenizer"
    by (simp add: two_rules_tokenizer_def loading_eval py_eval two_rules_def)
  have "op_rules two_rules_tokenizer = [str ''A'', str ''B'']"
    "op_replacements two_rules_tokenizer = [str ''B'', str ''C'']"
    by (simp_all add: two_rules_tokenizer_def loading_eval py_eval two_rules_def)
  then show ?thesis
    using t rules_lists_in_lockstep[of ascii_lib literal_re "str ''p''" None "Some two_rules"]
    by simp
qed

section \<open>Applying the rules\<close>

lemma rules_loop_sequence:
  assumes "length (op_rules tk) = length (op_replacements tk)" and "i \<le> length (op_rules tk)"
  shows "rules_loop re tk [i ..< length (op_rules tk)] s =
     (case apply_in_sequence re (drop i (zip (op_rules tk) (op_replacements tk))) s of
        None \<Rightarrow> Inl RegexError
      | Some r \<Rightarrow> Inr r)"
  using assms(2)
proof (induction "length (op_rules tk) - i" arbitrary: i s)
  case 0
  then show ?case by simp
next
  case (Suc n)
  then have lt: "i < length (op_rules tk)" by simp
  have up: "[i ..< length (op_rules tk)] = i # [Suc i ..< length (op_rules tk)]"
    using lt by (simp add: upt_conv_Cons)
  have dr: "drop i (zip (op_rules tk) (op_replacements tk)) =
      (op_rules tk ! i, op_replacements tk ! i) # drop (Suc i) (zip (op_rules tk) (op_replacements tk))"
    using lt assms(1) by (simp add: Cons_nth_drop_Suc[symmetric])
  have IH: "rules_loop re tk [Suc i ..< length (op_rules tk)] s' =
     (case apply_in_sequence re (drop (Suc i) (zip (op_rules tk) (op_replacements tk))) s' of
        None \<Rightarrow> Inl RegexError
      | Some r \<Rightarrow> Inr r)" for s'
    using Suc.hyps(1)[of "Suc i" s'] Suc.hyps(2) lt by simp
  have lt2: "i < length (op_replacements tk)" using lt assms(1) by simp
  show ?case
    unfolding up dr by (simp add: IH lt2 split: option.splits)
qed

text \<open>
  C3. Without a rules file \<open>rules\<close> returns its input. With one, the input is normalized,
  the rules are applied in order, each to the result of the rules before it, and the
  final result is normalized again. In particular, when the first of two rules turns the
  normalized input into \<open>s1\<close>, the second one is matched against \<open>s1\<close> and its result is
  what is returned.
\<close>

theorem rules_in_sequence:
  assumes "length (op_rules tk) = length (op_replacements tk)"
  shows "(orthography_profile_rules tk = None \<longrightarrow> rules u re tk string = Inr string) \<and>
    (orthography_profile_rules tk \<noteq> None \<longrightarrow>
       rules u re tk string =
         (case apply_in_sequence re (zip (op_rules tk) (op_replacements tk)) (NFD u string) of
            None \<Rightarrow> Inl RegexError
          | Some result \<Rightarrow> Inr (NFD u result))) \<and>
    (orthography_profile_rules tk \<noteq> None \<and> op_rules tk = [a, b] \<and>
     op_replacements tk = [x, y] \<and>
     re_search re a (NFD u string) \<and> re_sub re a x (NFD u string) = Some s1 \<and>
     re_search re b s1 \<and> re_sub re b y s1 = Some s2 \<longrightarrow>
       rules u re tk string = Inr (NFD u s2))"
proof -
  have seq: "rules u re tk string =
         (case apply_in_sequence re (zip (op_rules tk) (op_replacements tk)) (NFD u string) of
            None \<Rightarrow> Inl RegexError
          | Some result \<Rightarrow> Inr (NFD u result))"
    if "orthography_profile_rules tk \<noteq> None"
    using that rules_loop_sequence[OF assms, of 0 re "NFD u string"]
    by (simp add: rules_def split: option.splits)
  then show ?thesis
    by (auto simp: rules_def)
qed

theorem rules_in_sequence_witness:
  "length (op_rules two_rules_tokenizer) = length (op_replacements two_rules_tokenizer) \<and>
   orthography_profile_rules two_rules_tokenizer \<noteq> None \<and>
   rules ascii_lib literal_re two_rules_tokenizer (str ''A'') = Inr (str ''C'') \<and>
   rules ascii_lib literal_re no_attributes (str ''A'') = Inr (str ''A'')"
proof -
  have l: "length (op_rules two_rules_tokenizer) = length (op_replacements two_rules_tokenizer)"
    by (simp add: two_rules_tokenizer_def loading_eval py_eval two_rules_def)
  have "apply_in_sequence literal_re
      (zip (op_rules two_rules_tokenizer) (op_replacements two_rules_tokenizer)) (str ''A'')
      = Some (str ''C'')"
    by (simp add: two_rules_tokenizer_def loading_eval py_eval two_rules_def)
  moreover have "orthography_profile_rules two_rules_tokenizer \<noteq> None"
    by (simp add: two_rules_tokenizer_def loading_eval py_eval two_rules_def)
  moreover have "rules ascii_lib literal_re no_attributes (str ''A'') = Inr (str ''A'')"
    by (simp add: rules_def no_attributes_def)
  ultimately show ?thesis
    using l rules_in_sequence[OF l, of ascii_lib literal_re "str ''A''"]
    by (simp add: ascii_lib_def)
qed

section \<open>Column remapping\<close>

lemma remap_token_marker:
  "remap_token tk column (str ''#'') = Some [str ''#'']"
  "remap_token tk column (str ''?'') = Some [str ''?'']"
  by (simp_all add: remap_token_def)

lemma remap_token_grapheme:
  "token \<noteq> str ''#'' \<Longrightarrow> token \<noteq> str ''?'' \<Longrightarrow>
     remap_token tk column token =
       (case map_of (mappings tk) (token, column) of
          None \<Rightarrow> None
        | Some target \<Rightarrow> Some (if target = str ''NULL'' then [] else [target]))"
  by (simp add: remap_token_def)

lemma transform_loop_remap:
  "transform_loop tk column result tokens =
     (if \<forall>t \<in> set tokens. remap_token tk column t \<noteq> None
      then Inr (result @ concat (map (\<lambda>t. the (remap_token tk column t)) tokens))
      else Inl KeyError)"
proof (induction tokens arbitrary: result)
  case Nil
  then show ?case by simp
next
  case (Cons t ts)
  consider (hash) "t = str ''#''" | (unknown) "t \<noteq> str ''#''" "t = str ''?''"
    | (grapheme) "t \<noteq> str ''#''" "t \<noteq> str ''?''"
    by blast
  then show ?case
  proof cases
    case hash
    then show ?thesis by (simp add: Cons.IH remap_token_marker)
  next
    case unknown
    then show ?thesis by (simp add: Cons.IH remap_token_marker)
  next
    case grapheme
    then show ?thesis
      by (cases "map_of (mappings tk) (t, column)")
         (auto simp: Cons.IH remap_token_grapheme)
  qed
qed

text \<open>
  C4 (as the code has it). With a profile loaded, the column \<open>graphemes\<close> and any column
  that is not among the column labels give the grapheme tokenization itself. For another
  declared column, when every token of the grapheme tokenization is \<open>#\<close>, \<open>?\<close> or has a
  mapping for the column, the result is put together from what each token contributes:
  \<open>#\<close> and \<open>?\<close> themselves, nothing for a grapheme mapped to \<open>NULL\<close>, the mapped value
  otherwise. When a token has no mapping, \<open>transform\<close> raises a key error.
\<close>

theorem transform_remap:
  assumes "orthography_profile tk \<noteq> None"
  shows "(column = str ''graphemes'' \<or> column \<notin> set (column_labels tk) \<longrightarrow>
       transform u re tk string column = Inr (graphemes u re tk string)) \<and>
    (column \<in> set (column_labels tk) \<and> column \<noteq> str ''graphemes'' \<longrightarrow>
       transform u re tk string column =
         (let tokens = py_split (graphemes u re tk string) in
          if \<forall>t \<in> set tokens. remap_token tk column t \<noteq> None
          then Inr (py_strip (py_join (str '' '')
                 (concat (map (\<lambda>t. the (remap_token tk column t)) tokens))))
          else Inl KeyError)) \<and>
    remap_token tk column (str ''#'') = Some [str ''#''] \<and>
    remap_token tk column (str ''?'') = Some [str ''?''] \<and>
    (token \<noteq> str ''#'' \<and> token \<noteq> str ''?'' \<longrightarrow>
       remap_token tk column token =
         (case map_of (mappings tk) (token, column) of
            None \<Rightarrow> None
          | Some target \<Rightarrow> Some (if target = str ''NULL'' then [] else [target])))"
  using assms
  by (auto simp: transform_def transform_loop_remap remap_token_marker remap_token_grapheme
        Let_def)

theorem transform_remap_witness:
  "Tokenizer_init ascii_lib literal_re (str ''p'') (Some remap_profile) None = Inr remap_tokenizer \<and>
   orthography_profile remap_tokenizer \<noteq> None \<and>
   graphemes ascii_lib literal_re remap_tokenizer (str ''abc ax'') = str ''a b c # a ?'' \<and>
   transform ascii_lib literal_re remap_tokenizer (str ''abc ax'') (str ''ipa'')
     = Inr (str ''1 3 # 1 ?'') \<and>
   transform ascii_lib literal_re remap_tokenizer (str ''abc ax'') (str ''xyz'')
     = Inr (str ''a b c # a ?'')"
proof -
  have t: "Tokenizer_init ascii_lib literal_re (str ''p'') (Some remap_profile) None
      = Inr remap_tokenizer"
    by (simp add: remap_tokenizer_def loading_eval py_eval remap_profile_def)
  have p: "orthography_profile remap_tokenizer \<noteq> None"
    by (simp add: remap_tokenizer_def loading_eval py_eval remap_profile_def)
  have g: "graphemes ascii_lib literal_re remap_tokenizer (str ''abc ax'') = str ''a b c # a ?''"
    by (simp add: remap_tokenizer_def graphemes_eval loading_eval parse_eval py_eval
          remap_profile_def)
  have x: "str ''xyz'' \<notin> set (column_labels remap_tokenizer)"
    by (simp add: remap_tokenizer_def loading_eval py_eval remap_profile_def)
  have i: "transform ascii_lib literal_re remap_tokenizer (str ''abc ax'') (str ''ipa'')
      = Inr (str ''1 3 # 1 ?'')"
    unfolding transform_def g
    by (simp add: remap_tokenizer_def loading_eval py_eval remap_profile_def)
  show ?thesis
    using t p g x i
      transform_remap[OF p, of "str ''xyz''" ascii_lib literal_re "str ''abc ax''"]
    by simp
qed

text \<open>
  A token without a mapping makes the whole call raise, so that the markers among the
  tokens are not passed through: the row \<open>b\<close> of one column, and the token \<open>?#\<close> that the
  grapheme tokenization leaves between an unparsed word and a parsed one.
\<close>

theorem transform_remap_counterexample:
  "graphemes ascii_lib literal_re partial_tokenizer (str ''a b'') = str ''a # b'' \<and>
   transform ascii_lib literal_re partial_tokenizer (str ''a b'') (str ''ipa'') = Inl KeyError \<and>
   graphemes ascii_lib literal_re remap_tokenizer (str ''ax ax abc'') = str ''a ? a ?# a b c'' \<and>
   transform ascii_lib literal_re remap_tokenizer (str ''ax ax abc'') (str ''ipa'')
     = Inl KeyError"
proof -
  have g1: "graphemes ascii_lib literal_re partial_tokenizer (str ''a b'') = str ''a # b''"
    by (simp add: partial_tokenizer_def graphemes_eval loading_eval parse_eval py_eval
          partial_profile_def)
  have t1: "transform ascii_lib literal_re partial_tokenizer (str ''a b'') (str ''ipa'')
      = Inl KeyError"
    unfolding transform_def g1
    by (simp add: partial_tokenizer_def loading_eval py_eval partial_profile_def)
  have g2: "graphemes ascii_lib literal_re remap_tokenizer (str ''ax ax abc'')
      = str ''a ? a ?# a b c''"
    by (simp add: remap_tokenizer_def graphemes_eval loading_eval parse_eval py_eval
          remap_profile_def)
  have t2: "transform ascii_lib literal_re remap_tokenizer (str ''ax ax abc'') (str ''ipa'')
      = Inl KeyError"
    unfolding transform_def g2
    by (simp add: remap_tokenizer_def loading_eval py_eval remap_profile_def)
  show ?thesis using g1 t1 g2 t2 by simp
qed

section \<open>Modifier letters and tie bars\<close>

lemma length_takeWhile_all:
  "\<forall>x \<in> set xs. P x \<Longrightarrow> length (takeWhile P xs) = length xs"
  by (induction xs) auto

lemma trailing_Nil [simp]: "trailing_tie_bars [] = 0"
  by (simp add: trailing_tie_bars_def)

lemma trailing_all:
  "\<forall>s \<in> set L. ends_in_tie_bar s \<Longrightarrow> trailing_tie_bars L = length L"
  by (simp add: trailing_tie_bars_def length_takeWhile_all)

lemma trailing_Cons:
  "trailing_tie_bars (x # L) =
     (if (\<forall>s \<in> set L. ends_in_tie_bar s) \<and> ends_in_tie_bar x then Suc (length L)
      else trailing_tie_bars L)"
  by (auto simp: trailing_tie_bars_def takeWhile_append length_takeWhile_all)

lemma trailing_skip_one:
  "\<not> ends_in_tie_bar x \<Longrightarrow> trailing_tie_bars (x # L) = trailing_tie_bars L"
  by (simp add: trailing_Cons)

lemma trailing_skip_pair:
  "ends_in_tie_bar x \<Longrightarrow>
     odd (trailing_tie_bars (x # y # L)) \<longleftrightarrow> odd (trailing_tie_bars L)"
  by (cases "\<forall>s \<in> set L. ends_in_tie_bar s"; cases "ends_in_tie_bar y")
     (auto simp: trailing_Cons trailing_all)

lemma trailing_single:
  "trailing_tie_bars [x] = (if ends_in_tie_bar x then 1 else 0)"
  by (simp add: trailing_Cons)

lemma trailing_one:
  assumes "segments \<noteq> []" and "ends_in_tie_bar (last segments)"
    and "length segments = 1 \<or> \<not> ends_in_tie_bar (segments ! (length segments - 2))"
  shows "trailing_tie_bars segments = 1"
proof -
  obtain xs x where s: "segments = xs @ [x]"
    using assms(1) by (metis append_butlast_last_id)
  show ?thesis
  proof (cases xs rule: rev_cases)
    case Nil
    then show ?thesis using s assms(2) by (simp add: trailing_single)
  next
    case (snoc ys y)
    then have "segments ! (length segments - 2) = y"
      using s by (simp add: nth_append)
    then have "\<not> ends_in_tie_bar y" using assms(3) s snoc by simp
    then show ?thesis using s snoc assms(2) by (simp add: trailing_tie_bars_def)
  qed
qed

lemma tie_bars_parity:
  assumes "\<forall>s \<in> set segments. s \<noteq> []" and "i \<le> length segments"
  shows "if odd (trailing_tie_bars (drop i segments))
         then tie_bars segments i r = Inl IndexError
         else (\<exists>r'. tie_bars segments i r = Inr r')"
  using assms(2)
proof (induction "length segments - i" arbitrary: i r rule: less_induct)
  case less
  let ?n = "length segments"
  show ?case
  proof (cases "i < ?n")
    case False
    then show ?thesis using less.prems by (simp add: tie_bars.simps)
  next
    case lt: True
    then have ne: "segments ! i \<noteq> []" using assms(1) by simp
    have d1: "drop i segments = segments ! i # drop (Suc i) segments"
      using lt by (simp add: Cons_nth_drop_Suc)
    show ?thesis
    proof (cases "ends_in_tie_bar (segments ! i)")
      case nt: False
      have "if odd (trailing_tie_bars (drop (Suc i) segments))
         then tie_bars segments (Suc i) (r @ [segments ! i]) = Inl IndexError
         else (\<exists>r'. tie_bars segments (Suc i) (r @ [segments ! i]) = Inr r')"
        using lt by (intro less.hyps) auto
      moreover have "tie_bars segments i r = tie_bars segments (Suc i) (r @ [segments ! i])"
        using nt lt ne by (subst tie_bars.simps) (auto simp: ends_in_tie_bar_def)
      ultimately show ?thesis
        using nt by (simp add: d1 trailing_skip_one)
    next
      case tie: True
      show ?thesis
      proof (cases "Suc i < ?n")
        case False
        then have "drop (Suc i) segments = []" by simp
        moreover have "tie_bars segments i r = Inl IndexError"
          using tie lt ne False by (subst tie_bars.simps) (auto simp: ends_in_tie_bar_def)
        ultimately show ?thesis
          using tie by (simp add: d1 trailing_single)
      next
        case lt2: True
        have d2: "drop (Suc i) segments = segments ! Suc i # drop (Suc (Suc i)) segments"
          using lt2 by (simp add: Cons_nth_drop_Suc)
        let ?r = "r @ [segments ! i @ segments ! Suc i]"
        have "if odd (trailing_tie_bars (drop (Suc (Suc i)) segments))
           then tie_bars segments (Suc (Suc i)) ?r = Inl IndexError
           else (\<exists>r'. tie_bars segments (Suc (Suc i)) ?r = Inr r')"
          using lt2 by (intro less.hyps) auto
        moreover have "tie_bars segments i r = tie_bars segments (Suc (Suc i)) ?r"
          using tie lt lt2 ne by (subst tie_bars.simps) (auto simp: ends_in_tie_bar_def)
        ultimately show ?thesis
          using tie by (simp add: d1 d2 trailing_skip_pair)
      qed
    qed
  qed
qed

lemma split_ws_nonempty: "x \<in> set (split_ws w s) \<Longrightarrow> x \<noteq> []"
  by (induction s arbitrary: w) (auto split: if_splits)

lemma py_split_nonempty: "x \<in> set (py_split s) \<Longrightarrow> x \<noteq> []"
  by (simp add: py_split_def split_ws_nonempty)

lemma modifier_loop_Cons:
  "modifier_loop u (g # rest) result temp count =
     (if is_modifier u g then
        (if count - 1 = 0 then
           (if result = [] then Inl IndexError
            else modifier_loop u rest (butlast result @ [(g @ temp) @ last result]) (g @ temp)
                   (count - 1))
         else modifier_loop u rest result (g @ temp) (count - 1))
      else modifier_loop u rest (result @ [g @ temp]) [] (count - 1))"
  by (simp add: is_modifier_def Let_def)

lemma modifier_loop_raises:
  assumes "count = int (length rest)"
  shows "modifier_loop u rest result temp count =  Inl IndexError \<longleftrightarrow>
     rest \<noteq> [] \<and> (\<forall>g \<in> set rest. is_modifier u g) \<and> result = []"
  using assms
proof (induction rest arbitrary: result temp count)
  case Nil
  then show ?case by simp
next
  case (Cons g rest)
  have c: "count - 1 = int (length rest)" using Cons.prems by simp
  have z: "count - 1 = 0 \<longleftrightarrow> rest = []" using c by simp
  show ?case
  proof (cases "is_modifier u g")
    case True
    show ?thesis
    proof (cases "rest = []")
      case True
      then show ?thesis
        using \<open>is_modifier u g\<close> z by (simp add: modifier_loop_Cons del: modifier_loop.simps(2))
    next
      case False
      then show ?thesis
        using True z Cons.IH[OF c, of result "g @ temp"]
        by (simp add: modifier_loop_Cons del: modifier_loop.simps(2))
    qed
  next
    case False
    then show ?thesis
      using Cons.IH[OF c, of "result @ [g @ temp]" "[]"]
      by (simp add: modifier_loop_Cons del: modifier_loop.simps(2))
  qed
qed

lemma modifier_loop_error:
  "modifier_loop u rest result temp count = Inl e \<Longrightarrow> e = IndexError"
  by (induction rest arbitrary: result temp count) (auto simp: Let_def split: if_splits)

lemma modifier_loop_nonempty:
  assumes "modifier_loop u rest result temp count = Inr res"
    and "\<forall>s \<in> set result. s \<noteq> []" and "\<forall>g \<in> set rest. g \<noteq> []"
  shows "\<forall>s \<in> set res. s \<noteq> []"
  using assms
proof (induction rest arbitrary: result temp count)
  case Nil
  then show ?case by simp
next
  case (Cons g rest)
  let ?c = "count - 1"
  note step = Cons.prems(1)[unfolded modifier_loop_Cons]
  show ?case
  proof (cases "is_modifier u g")
    case False
    then have "modifier_loop u rest (result @ [g @ temp]) [] ?c = Inr res"
      using step by simp
    then show ?thesis
      using Cons.prems(2,3) by (intro Cons.IH[of "result @ [g @ temp]" "[]" ?c]) auto
  next
    case True
    show ?thesis
    proof (cases "?c = 0")
      case z: True
      then have ne: "result \<noteq> []"
        and r: "modifier_loop u rest (butlast result @ [(g @ temp) @ last result]) (g @ temp) ?c
                  = Inr res"
        using step True by (auto split: if_splits)
      have "\<forall>s \<in> set (butlast result @ [(g @ temp) @ last result]). s \<noteq> []"
        using Cons.prems(2,3) by (auto dest: in_set_butlastD)
      then show ?thesis
        using Cons.prems(3)
        by (intro Cons.IH[OF r]) auto
    next
      case False
      then have "modifier_loop u rest result (g @ temp) ?c = Inr res"
        using step True by simp
      then show ?thesis
        using Cons.prems(2,3) by (intro Cons.IH[of result "g @ temp" ?c]) auto
    qed
  qed
qed

lemma merged_segments_None:
  "merged_segments u string = None \<longleftrightarrow>
     py_split string \<noteq> [] \<and> (\<forall>g \<in> set (py_split string). is_modifier u g)"
proof -
  let ?gs = "py_split string"
  let ?m = "modifier_loop u (rev ?gs) [] [] (int (length ?gs))"
  have "merged_segments u string = None \<longleftrightarrow> ?m = Inl IndexError"
    by (auto simp: merged_segments_def Let_def split: sum.splits dest: modifier_loop_error)
  also have "\<dots> \<longleftrightarrow> ?gs \<noteq> [] \<and> (\<forall>g \<in> set ?gs. is_modifier u g)"
    using modifier_loop_raises[of "int (length ?gs)" "rev ?gs" u "[]" "[]"] by simp
  finally show ?thesis .
qed

lemma merged_segments_nonempty:
  assumes "merged_segments u string = Some segments"
  shows "\<forall>s \<in> set segments. s \<noteq> []"
proof -
  from assms obtain res where r:
    "modifier_loop u (rev (py_split string)) [] [] (int (length (py_split string))) = Inr res"
    and s: "segments = rev res"
    by (auto simp: merged_segments_def Let_def split: sum.splits)
  have "\<forall>s \<in> set res. s \<noteq> []"
    using r by (rule modifier_loop_nonempty) (auto dest: py_split_nonempty)
  then show ?thesis using s by simp
qed

lemma combine_modifiers_cases:
  "combine_modifiers u string =
     (case merged_segments u string of
        None \<Rightarrow> Inl IndexError
      | Some segments \<Rightarrow>
          (case tie_bars segments 0 [] of
             Inl e \<Rightarrow> Inl e
           | Inr r \<Rightarrow> Inr (py_join (str '' '') r)))"
  by (auto simp: combine_modifiers_def merged_segments_def Let_def split: sum.splits
        dest: modifier_loop_error)

lemmas modifiers_eval =
  combine_modifiers_def merged_segments_def ends_in_tie_bar_def tie_bars.simps
  trailing_tie_bars_def is_modifier_def py_eval

text \<open>
  C10 (as the code has it). \<open>combine_modifiers\<close> raises an index error exactly on two
  kinds of input: when there is a segment and every segment is a single modifier letter
  (so on an input that is one modifier letter), and when, after the modifier letters are
  merged, the number of segments at the end of the list that end in a tie bar (U+0361 or
  U+035C), one after the other, is odd (so when the last segment ends in a tie bar and
  the one before it does not). On every other input it returns a string.
\<close>

theorem combine_modifiers_partial:
  "(combine_modifiers u string = Inl IndexError \<longleftrightarrow>
      (py_split string \<noteq> [] \<and> (\<forall>g \<in> set (py_split string). is_modifier u g)) \<or>
      (\<exists>segments. merged_segments u string = Some segments \<and>
         odd (trailing_tie_bars segments))) \<and>
   (combine_modifiers u string = Inl IndexError \<or> (\<exists>r. combine_modifiers u string = Inr r)) \<and>
   (category u c = str ''Lm'' \<and> \<not> isspace c \<longrightarrow> combine_modifiers u [c] = Inl IndexError) \<and>
   (merged_segments u string = Some segments \<and> segments \<noteq> [] \<and>
    ends_in_tie_bar (last segments) \<and>
    (length segments = 1 \<or> \<not> ends_in_tie_bar (segments ! (length segments - 2))) \<longrightarrow>
      combine_modifiers u string = Inl IndexError)"
proof -
  have tb: "if odd (trailing_tie_bars segments)
         then tie_bars segments 0 [] = Inl IndexError
         else (\<exists>r'. tie_bars segments 0 [] = Inr r')"
    if "merged_segments u string = Some segments" for segments
    using tie_bars_parity[of segments 0 "[]"] merged_segments_nonempty[OF that] by simp
  have 1: "combine_modifiers u string = Inl IndexError \<longleftrightarrow>
      (py_split string \<noteq> [] \<and> (\<forall>g \<in> set (py_split string). is_modifier u g)) \<or>
      (\<exists>segments. merged_segments u string = Some segments \<and>
         odd (trailing_tie_bars segments))"
  proof (cases "merged_segments u string")
    case None
    then show ?thesis
      using merged_segments_None[of u string] by (simp add: combine_modifiers_cases)
  next
    case (Some segments)
    then have "\<not> (py_split string \<noteq> [] \<and> (\<forall>g \<in> set (py_split string). is_modifier u g))"
      using merged_segments_None[of u string] by simp
    then show ?thesis
      using Some tb[OF Some]
      by (cases "odd (trailing_tie_bars segments)") (auto simp: combine_modifiers_cases)
  qed
  have 2: "combine_modifiers u string = Inl IndexError \<or> (\<exists>r. combine_modifiers u string = Inr r)"
  proof (cases "merged_segments u string")
    case None
    then show ?thesis by (simp add: combine_modifiers_cases)
  next
    case (Some segments)
    then show ?thesis
      using tb[OF Some]
      by (cases "odd (trailing_tie_bars segments)") (auto simp: combine_modifiers_cases)
  qed
  have 3: "combine_modifiers u [c] = Inl IndexError" if "category u c = str ''Lm'' \<and> \<not> isspace c"
    using that by (simp add: combine_modifiers_def py_split_def Let_def)
  have 4: "combine_modifiers u string = Inl IndexError"
    if a: "merged_segments u string = Some segments \<and> segments \<noteq> [] \<and>
      ends_in_tie_bar (last segments) \<and>
      (length segments = 1 \<or> \<not> ends_in_tie_bar (segments ! (length segments - 2)))"
  proof -
    have "trailing_tie_bars segments = 1"
      using a by (intro trailing_one) auto
    then show ?thesis using a 1 by auto
  qed
  show ?thesis using 1 2 3 4 by blast
qed

theorem combine_modifiers_partial_witness:
  "category ascii_lib 688 = str ''Lm'' \<and> \<not> isspace 688 \<and>
   combine_modifiers ascii_lib [688] = Inl IndexError \<and>
   merged_segments ascii_lib ([97, 865] @ str '' '' @ [98, 865] @ str '' '' @ [99, 865])
     = Some [[97, 865], [98, 865], [99, 865]] \<and>
   odd (trailing_tie_bars [[97, 865], [98, 865], [99, 865]]) \<and>
   combine_modifiers ascii_lib ([97, 865] @ str '' '' @ [98, 865] @ str '' '' @ [99, 865])
     = Inl IndexError \<and>
   merged_segments ascii_lib [116, 865] = Some [[116, 865]] \<and>
   combine_modifiers ascii_lib [116, 865] = Inl IndexError"
proof -
  let ?abc = "[97, 865] @ str '' '' @ [98, 865] @ str '' '' @ [99, 865]"
  have a: "category ascii_lib 688 = str ''Lm'' \<and> \<not> isspace 688"
    by (simp add: py_eval)
  have m3: "merged_segments ascii_lib ?abc = Some [[97, 865], [98, 865], [99, 865]]"
    by (simp add: modifiers_eval)
  have o3: "odd (trailing_tie_bars [[97, 865], [98, 865], [99, 865]])"
    by (simp add: modifiers_eval)
  have m1: "merged_segments ascii_lib [116, 865] = Some [[116, 865]]"
    by (simp add: modifiers_eval)
  have o1: "odd (trailing_tie_bars [[116, 865]])"
    by (simp add: modifiers_eval)
  show ?thesis
    using a m3 o3 m1 o1
      combine_modifiers_partial[where u = ascii_lib and string = ?abc and c = 688]
      combine_modifiers_partial[where u = ascii_lib and string = "[116, 865]" and c = 688]
    by auto
qed

text \<open>
  A last segment that ends in a tie bar is not reached by the second loop when the
  segment before it is the first of a pair: the two are joined and nothing is raised.
\<close>

theorem combine_modifiers_counterexample:
  "merged_segments ascii_lib ([97, 865] @ str '' '' @ [98, 865]) = Some [[97, 865], [98, 865]] \<and>
   ends_in_tie_bar (last [[97, 865], [98, 865]]) \<and>
   combine_modifiers ascii_lib ([97, 865] @ str '' '' @ [98, 865]) = Inr [97, 865, 98, 865]"
  by (simp add: modifiers_eval)

end
